theory Spec2Isabelle
  imports Main "HOL-Library.Word" "HOL-Library.Signed_Division"
begin

unbundle bit_operations_syntax

section \<open>Register decoder (modbus.c)\<close>

text \<open>
  A Modbus register is a \<open>uint16_t\<close>; the decoders receive a pointer into the register
  buffer, modelled as the list of registers starting at that position. The C prototypes
  (\<open>regs[static 2]\<close>, \<open>regs[static 4]\<close>) promise at least two, respectively four,
  readable elements.
\<close>

definition regs2uint32 :: "16 word list \<Rightarrow> 32 word" where
  "regs2uint32 regs =
     (let up = (ucast (regs ! 0) :: 32 word);
          lo = (ucast (regs ! 1) :: 32 word)
      in push_bit 16 up OR lo)"

definition regs2uint64 :: "16 word list \<Rightarrow> 64 word" where
  "regs2uint64 regs =
     (let ms   = (ucast (regs ! 0) :: 64 word);
          midl = (ucast (regs ! 1) :: 64 word);
          midr = (ucast (regs ! 2) :: 64 word);
          ls   = (ucast (regs ! 3) :: 64 word)
      in push_bit 48 ms OR push_bit 32 midl OR push_bit 16 midr OR push_bit 0 ls)"

section \<open>Scheduler (modbus.c)\<close>

text \<open>
  Where the C standard gives an execution no meaning (signed overflow, a \<open>NULL\<close> or
  dangling pointer that is dereferenced) the model returns \<open>Undefined\<close>.
\<close>

datatype 'a result = Undefined | Defined 'a

text \<open>
  \<open>struct timespec\<close>: both members are C \<open>long\<close>s (\<open>time_t\<close> is \<open>long\<close> on Linux,
  but for a 32-bit system built with a 64-bit \<open>time_t\<close>), and so are the locals of
  \<open>ts_diff\<close>. The width of \<open>long\<close> depends on the platform (64 bits on LP64, 32 bits
  on a 32-bit Raspberry Pi OS): the functions take \<open>LONG_MAX\<close> as the parameter
  \<open>long_max\<close>. A signed operation whose result is not a \<open>long\<close> is undefined.
  Division and remainder truncate towards zero (\<open>sdiv\<close>, \<open>smod\<close>).
\<close>

record timespec =
  tv_sec :: int
  tv_nsec :: int

definition INTERVAL :: int where
  "INTERVAL = 5"

definition in_long :: "int \<Rightarrow> int \<Rightarrow> bool" where
  "in_long long_max k \<longleftrightarrow> - long_max - 1 \<le> k \<and> k \<le> long_max"

text \<open>\<open>ts_diff a b\<close> computes \<open>a - b\<close>.\<close>

definition ts_diff :: "int \<Rightarrow> timespec \<Rightarrow> timespec \<Rightarrow> timespec result" where
  "ts_diff long_max a b =
     (let diff_sec = tv_sec a - tv_sec b;
          prod = 1000000000 * diff_sec;
          nsec = tv_nsec a - tv_nsec b;
          diff_nsec = prod + nsec
      in if in_long long_max diff_sec \<and> in_long long_max prod
            \<and> in_long long_max nsec \<and> in_long long_max diff_nsec
         then Defined \<lparr>tv_sec = diff_nsec sdiv 1000000000, tv_nsec = diff_nsec smod 1000000000\<rparr>
         else Undefined)"

text \<open>The condition of the \<open>while\<close> loop of \<open>increment_time\<close>, on the difference \<open>d\<close>.\<close>

definition in_the_past :: "timespec \<Rightarrow> bool" where
  "in_the_past d \<longleftrightarrow> tv_sec d < 0 \<or> (tv_sec d = 0 \<and> tv_nsec d < 0)"

text \<open>The body of that loop, on \<open>*spec\<close>.\<close>

definition advance :: "int \<Rightarrow> timespec \<Rightarrow> timespec result" where
  "advance long_max spec =
     (let spec = spec\<lparr>tv_nsec := 0\<rparr>;
          sec = (if tv_sec spec smod INTERVAL = 0
                 then tv_sec spec + INTERVAL
                 else tv_sec spec + tv_sec spec smod INTERVAL)
      in if in_long long_max sec then Defined (spec\<lparr>tv_sec := sec\<rparr>) else Undefined)"

text \<open>
  \<open>increment_time now spec\<close>: \<open>now\<close> is the value that \<open>clock_gettime\<close> stores at the
  start of the call; the result is the final \<open>*spec\<close>, or \<open>None\<close> when the loop does
  not end.
\<close>

partial_function (option) increment_time ::
  "int \<Rightarrow> timespec \<Rightarrow> timespec \<Rightarrow> timespec result option" where
  "increment_time long_max now spec =
     (case ts_diff long_max spec now of
        Undefined \<Rightarrow> Some Undefined
      | Defined d \<Rightarrow>
          if in_the_past d
          then (case advance long_max spec of
                  Undefined \<Rightarrow> Some Undefined
                | Defined spec' \<Rightarrow> increment_time long_max now spec')
          else Some (Defined spec))"

declare increment_time.simps [code]

text \<open>
  \<open>wait_until_and_increment now now' then\<close>: \<open>now\<close> is the clock reading inside
  \<open>increment_time\<close>, \<open>now'\<close> the second reading. The result is the new \<open>*then\<close> and the
  argument given to \<open>usleep\<close>, a 32-bit \<open>useconds_t\<close>: the casts to it and the unsigned
  arithmetic on it wrap around.
\<close>

definition wait_until_and_increment ::
  "int \<Rightarrow> timespec \<Rightarrow> timespec \<Rightarrow> timespec \<Rightarrow> (timespec \<times> 32 word) result option" where
  "wait_until_and_increment long_max now now' then' =
     (case increment_time long_max now then' of
        None \<Rightarrow> None
      | Some Undefined \<Rightarrow> Some Undefined
      | Some (Defined target) \<Rightarrow>
          (case ts_diff long_max target now' of
             Undefined \<Rightarrow> Some Undefined
           | Defined diff \<Rightarrow>
               (let wait = (word_of_int (tv_sec diff) :: 32 word) * 1000000
                         + (word_of_int (tv_nsec diff) :: 32 word) div 1000
                in Some (Defined (target, wait)))))"

text \<open>
  For the statements about the scheduler: a timespec is normalised when its nanoseconds
  are those of a clock reading, and \<open>nsec_between a b\<close> is the mathematical difference
  \<open>a - b\<close> in nanoseconds.
\<close>

definition normalised :: "timespec \<Rightarrow> bool" where
  "normalised t \<longleftrightarrow> 0 \<le> tv_nsec t \<and> tv_nsec t < 1000000000"

definition nsec_between :: "timespec \<Rightarrow> timespec \<Rightarrow> int" where
  "nsec_between a b = 1000000000 * (tv_sec a - tv_sec b) + (tv_nsec a - tv_nsec b)"

section \<open>Heap allocation and formatted strings (influx.c)\<close>

text \<open>
  Whether \<open>malloc\<close>, \<open>calloc\<close>, \<open>realloc\<close> or \<open>curl_slist_append\<close> succeeds is
  not decided by the program. A value of type \<open>allocs\<close> lists the outcomes of the coming
  allocation requests, in order; when the list is used up every further request succeeds.
  Each function that allocates takes this list and returns what is left of it.
\<close>

type_synonym allocs = "bool list"

fun alloc :: "allocs \<Rightarrow> bool \<times> allocs" where
  "alloc [] = (True, [])"
| "alloc (ok # m) = (ok, m)"

definition no_fail :: "allocs \<Rightarrow> bool" where
  "no_fail m \<longleftrightarrow> False \<notin> set m"

text \<open>
  \<open>fstringa str fmt ...\<close> appends the formatted text to \<open>str\<close> (\<open>NULL\<close> is \<open>None\<close>).
  The model receives the formatted text \<open>out\<close> itself, which is what \<open>vsnprintf\<close>
  writes for the format and its arguments; \<open>vsnprintf\<close> is taken not to fail. The loop
  first formats into a buffer of \<open>flen = 1\<close> byte and enlarges it when the text does
  not fit.
\<close>

function fstringa_loop :: "allocs \<Rightarrow> string \<Rightarrow> string \<Rightarrow> nat \<Rightarrow> string option \<times> allocs" where
  "fstringa_loop m old out flen =
     (let ret = length out
      in if ret < flen then (Some (old @ out), m)
         else (case alloc m of
                 (False, m') \<Rightarrow> (None, m')
               | (True, m') \<Rightarrow> fstringa_loop m' old out (ret + 1)))"
  by pat_completeness auto
termination
  by (relation "measure (\<lambda>(m, old, out, flen). Suc (length out) - flen)") auto

declare fstringa_loop.simps [simp del]

definition fstringa :: "allocs \<Rightarrow> string option \<Rightarrow> string \<Rightarrow> string option \<times> allocs" where
  "fstringa m str out =
     (let old = (case str of None \<Rightarrow> [] | Some s \<Rightarrow> s)
      in case alloc m of
           (False, m') \<Rightarrow> (None, m')
         | (True, m') \<Rightarrow> fstringa_loop m' old out 1)"

text \<open>\<open>fstring(...)\<close> is the macro \<open>fstringa(NULL, ...)\<close>.\<close>

definition fstring :: "allocs \<Rightarrow> string \<Rightarrow> string option \<times> allocs" where
  "fstring m out = fstringa m None out"

text \<open>
  The text that \<open>printf\<close> produces for the conversions \<open>%ld\<close> and \<open>%d\<close>: the decimal
  digits of the number, with a minus sign when it is negative.
\<close>

function dec_nat :: "nat \<Rightarrow> string" where
  "dec_nat n =
     (if n < 10 then [''0123456789'' ! n]
      else dec_nat (n div 10) @ [''0123456789'' ! (n mod 10)])"
  by pat_completeness auto
termination
  by (relation "measure id") auto

declare dec_nat.simps [simp del]

definition fmt_ld :: "int \<Rightarrow> string" where
  "fmt_ld i = (if i < 0 then ''-'' @ dec_nat (nat (- i)) else dec_nat (nat i))"

text \<open>
  A \<open>double\<close>. A finite one is a sign bit \<open>s\<close>, a mantissa \<open>mant\<close> and an exponent \<open>e\<close>
  and stands for the number \<open>mant * 2 ^ e\<close>, negated when \<open>s\<close> is set (the mantissa
  of a C \<open>double\<close> is below \<open>2 ^ 53\<close> and its exponent goes from -1074 to 971, which
  nothing here depends on); and there are the infinities and the NaNs, each with a sign bit.
\<close>

datatype double = Finite bool nat int | Infinite bool | NaN bool

text \<open>
  The text that \<open>printf\<close> produces for the conversion \<open>%f\<close>. The format gives no
  precision, so it is 6: the magnitude is rounded to a whole number of millionths
  (\<open>round6\<close>: to the nearest one, a tie to the even one) and printed as the decimal
  digits of the integral part, a point and six digits. The minus sign is that of the sign
  bit, also when all digits are zero. Infinities and NaNs are printed as the words
  \<open>inf\<close> and \<open>nan\<close>, as glibc does.
\<close>

definition round6 :: "nat \<Rightarrow> int \<Rightarrow> nat" where
  "round6 mant e =
     (if 0 \<le> e then mant * 2 ^ nat e * 1000000
      else (let num = mant * 1000000;
                den = 2 ^ nat (- e);
                q = num div den;
                r = num mod den
            in if den < 2 * r \<or> (2 * r = den \<and> odd q) then q + 1 else q))"

definition six_digits :: "nat \<Rightarrow> string" where
  "six_digits n =
     [''0123456789'' ! (n div 100000 mod 10), ''0123456789'' ! (n div 10000 mod 10),
      ''0123456789'' ! (n div 1000 mod 10), ''0123456789'' ! (n div 100 mod 10),
      ''0123456789'' ! (n div 10 mod 10), ''0123456789'' ! (n mod 10)]"

fun printf_f :: "double \<Rightarrow> string" where
  "printf_f (Finite s mant e) =
     (if s then ''-'' else []) @ dec_nat (round6 mant e div 1000000) @ ''.''
       @ six_digits (round6 mant e mod 1000000)"
| "printf_f (Infinite s) = (if s then ''-'' else []) @ ''inf''"
| "printf_f (NaN s) = (if s then ''-'' else []) @ ''nan''"

section \<open>Data of the InfluxDB writer (influx.h)\<close>

text \<open>
  \<open>struct field\<close> and \<open>struct tag\<close>; the members are \<open>name\<close> and \<open>value\<close> in C. A
  \<open>double\<close> is never inspected by the library, only copied and printed: its type is the
  parameter \<open>'d\<close>. Strings are C strings by value.
\<close>

record 'd field =
  f_name :: string
  f_value :: 'd

record tag =
  t_name :: string
  t_value :: string

datatype influx_precision =
  INFLUX_PRECISION_S | INFLUX_PRECISION_MS | INFLUX_PRECISION_US | INFLUX_PRECISION_NS

text \<open>
  \<open>struct influx_field_elem\<close> (members \<open>f\<close>, \<open>next\<close>) and \<open>struct influx_field_list\<close>
  (members \<open>num\<close>, \<open>next\<close>, \<open>last\<close>). The elements live in a heap: the heap is the list
  of all elements allocated so far and a pointer to an element is its index. \<open>calloc\<close>
  puts the new element at the end, so it never aliases an older one. Nothing is freed
  by the functions modelled here. A pointer that is not the index of an allocated element
  dangles: C gives its use no meaning, and neither does the model (\<open>h ! a\<close> is then
  unspecified).
\<close>

type_synonym addr = nat

record 'd influx_field_elem =
  elem_f :: "'d field"
  elem_next :: "addr option"

record influx_field_list =
  lst_num :: nat
  lst_next :: "addr option"
  lst_last :: "addr option"

type_synonym 'd heap = "'d influx_field_elem list"

text \<open>
  What the C library does for the program with floating point and the clock: the text
  that \<open>printf\<close> produces for the conversion \<open>%f\<close> of a double and for \<open>%.0f\<close> of
  \<open>(double) tv_nsec / divisors[prec]\<close>, and the value that
  \<open>clock_gettime(CLOCK_REALTIME)\<close> stores (\<open>None\<close> when it fails).
\<close>

record 'd libc =
  fmt_f :: "'d \<Rightarrow> string"
  fmt_subsec :: "int \<Rightarrow> influx_precision \<Rightarrow> string"
  realtime :: "timespec option"

section \<open>Field lists (influx.c)\<close>

definition influx_field_list_create :: "allocs \<Rightarrow> influx_field_list option \<times> allocs" where
  "influx_field_list_create m =
     (case alloc m of
        (False, m') \<Rightarrow> (None, m')
      | (True, m') \<Rightarrow> (Some \<lparr>lst_num = 0, lst_next = None, lst_last = None\<rparr>, m'))"

text \<open>
  The result of \<open>influx_field_list_append\<close>: the returned \<open>int\<close>, the remaining
  allocation outcomes, the heap and the list structure behind \<open>lst\<close> after the call.
  The copy of the name is made first, also for a \<open>NULL\<close> list. A successful \<open>calloc\<close>
  and the assignment of \<open>f\<close> that follows it are one step: the new element holds the
  field and a \<open>NULL\<close> successor.
\<close>

record 'd append_result =
  a_ret :: int
  a_mem :: allocs
  a_heap :: "'d heap"
  a_lst :: "influx_field_list option"

definition influx_field_list_append ::
  "allocs \<Rightarrow> 'd heap \<Rightarrow> influx_field_list option \<Rightarrow> string \<Rightarrow> 'd \<Rightarrow> 'd append_result" where
  "influx_field_list_append m h lst field val =
     (case fstring m field of
        (None, m1) \<Rightarrow> \<lparr>a_ret = - 1, a_mem = m1, a_heap = h, a_lst = lst\<rparr>
      | (Some nm, m1) \<Rightarrow>
          (let f = \<lparr>f_name = nm, f_value = val\<rparr>
           in case lst of
                None \<Rightarrow> \<lparr>a_ret = - 1, a_mem = m1, a_heap = h, a_lst = lst\<rparr>
              | Some l \<Rightarrow>
                  (case lst_next l of
                     None \<Rightarrow>
                       (case alloc m1 of
                          (True, m2) \<Rightarrow>
                            \<lparr>a_ret = 0, a_mem = m2,
                             a_heap = h @ [\<lparr>elem_f = f, elem_next = None\<rparr>],
                             a_lst = Some (l\<lparr>lst_num := lst_num l + 1,
                                              lst_next := Some (length h),
                                              lst_last := Some (length h)\<rparr>)\<rparr>
                        | (False, m2) \<Rightarrow>
                            \<lparr>a_ret = - 1, a_mem = m2, a_heap = h,
                             a_lst = Some (l\<lparr>lst_next := None\<rparr>)\<rparr>)
                   | Some _ \<Rightarrow>
                       (case lst_last l of
                          Some b \<Rightarrow>
                            (case alloc m1 of
                               (True, m2) \<Rightarrow>
                                 \<lparr>a_ret = 0, a_mem = m2,
                                  a_heap = (h[b := (h ! b)\<lparr>elem_next := Some (length h)\<rparr>])
                                             @ [\<lparr>elem_f = f, elem_next = None\<rparr>],
                                  a_lst = Some (l\<lparr>lst_num := lst_num l + 1,
                                                   lst_last := Some (length h)\<rparr>)\<rparr>
                             | (False, m2) \<Rightarrow>
                                 \<lparr>a_ret = - 1, a_mem = m2,
                                  a_heap = h[b := (h ! b)\<lparr>elem_next := None\<rparr>],
                                  a_lst = Some l\<rparr>)
                        | None \<Rightarrow> \<lparr>a_ret = - 1, a_mem = m1, a_heap = h, a_lst = lst\<rparr>))))"

text \<open>
  The loop of \<open>influx_field_list_compact\<close>: \<open>head\<close> walks the chain, \<open>k\<close> is
  \<open>lst->num - i\<close>, \<open>acc\<close> the entries \<open>fields[0..i-1]\<close> stored so far. The result is
  the array up to its terminating \<open>NULL\<close>, or \<open>None\<close> for a \<open>NULL\<close> return.
\<close>

fun compact_loop ::
  "allocs \<Rightarrow> 'd heap \<Rightarrow> addr option \<Rightarrow> nat \<Rightarrow> 'd field list \<Rightarrow> 'd field list option \<times> allocs" where
  "compact_loop m h None k acc = (Some acc, m)"
| "compact_loop m h (Some a) 0 acc = (Some acc, m)"
| "compact_loop m h (Some a) (Suc k) acc =
     (case alloc m of
        (False, m1) \<Rightarrow> (None, m1)
      | (True, m1) \<Rightarrow>
          (case fstring m1 (f_name (elem_f (h ! a))) of
             (None, m2) \<Rightarrow> (None, m2)
           | (Some nm, m2) \<Rightarrow>
               compact_loop m2 h (elem_next (h ! a)) k
                 (acc @ [\<lparr>f_name = nm, f_value = f_value (elem_f (h ! a))\<rparr>])))"

definition influx_field_list_compact ::
  "allocs \<Rightarrow> 'd heap \<Rightarrow> influx_field_list option \<Rightarrow> 'd field list option \<times> allocs" where
  "influx_field_list_compact m h lst =
     (case lst of
        None \<Rightarrow> (None, m)
      | Some l \<Rightarrow>
          (case alloc m of
             (False, m1) \<Rightarrow> (None, m1)
           | (True, m1) \<Rightarrow> compact_loop m1 h (lst_next l) (lst_num l) []))"

section \<open>Line encoder (influx.c)\<close>

definition influx_timestamp_precision ::
  "'d libc \<Rightarrow> allocs \<Rightarrow> influx_precision \<Rightarrow> string option \<times> allocs" where
  "influx_timestamp_precision libc m prec =
     (case realtime libc of
        None \<Rightarrow> (None, m)
      | Some ts \<Rightarrow>
          (if prec \<noteq> INFLUX_PRECISION_S
           then fstring m (fmt_ld (tv_sec ts) @ fmt_subsec libc (tv_nsec ts) prec)
           else fstring m (fmt_ld (tv_sec ts))))"

text \<open>
  The tag loop and the field loop of \<open>influx_writer_line\<close>. \<open>tagstr\<close> and
  \<open>fieldstr\<close> are not \<open>NULL\<close> at the head of the loop: a failed \<open>fstringa\<close> leaves it
  at once.
\<close>

fun tags_loop :: "allocs \<Rightarrow> tag list \<Rightarrow> string \<Rightarrow> string option \<times> allocs" where
  "tags_loop m [] tagstr = (Some tagstr, m)"
| "tags_loop m (t # ts) tagstr =
     (let sep = (if tagstr = [] then [] else '','')
      in if t_name t = [] \<or> t_value t = [] then tags_loop m ts tagstr
         else (case fstringa m (Some tagstr) (sep @ t_name t @ ''='' @ t_value t) of
                 (None, m') \<Rightarrow> (None, m')
               | (Some tagstr', m') \<Rightarrow> tags_loop m' ts tagstr'))"

fun fields_loop ::
  "'d libc \<Rightarrow> allocs \<Rightarrow> 'd field list \<Rightarrow> string \<Rightarrow> string option \<times> allocs" where
  "fields_loop libc m [] fieldstr = (Some fieldstr, m)"
| "fields_loop libc m (f # fs) fieldstr =
     (let sep = (if fieldstr = [] then [] else '','')
      in if f_name f = [] then fields_loop libc m fs fieldstr
         else (case fstringa m (Some fieldstr) (sep @ f_name f @ ''='' @ fmt_f libc (f_value f)) of
                 (None, m') \<Rightarrow> (None, m')
               | (Some fieldstr', m') \<Rightarrow> fields_loop libc m' fs fieldstr'))"

text \<open>
  \<open>measurement\<close>, \<open>tags\<close> and \<open>fields\<close> (here \<open>fieldv\<close>) are pointers: \<open>None\<close> is
  \<open>NULL\<close>. The arrays behind \<open>tags\<close> and \<open>fields\<close> are given up to their terminating
  \<open>NULL\<close>.
\<close>

definition influx_writer_line ::
  "'d libc \<Rightarrow> allocs \<Rightarrow> string option \<Rightarrow> tag list option \<Rightarrow> 'd field list option
     \<Rightarrow> influx_precision \<Rightarrow> string option \<times> allocs" where
  "influx_writer_line libc m measurement tags fieldv prec =
     (case (tags, fieldv, measurement) of
        (Some ts, Some fs, Some ms) \<Rightarrow>
          (case influx_timestamp_precision libc m prec of (timestamp, m1) \<Rightarrow>
           case fstring m1 [] of (fieldstr, m2) \<Rightarrow>
           case fstring m2 [] of (tagstr, m3) \<Rightarrow>
           (case (timestamp, fieldstr, tagstr) of
              (Some stamp, Some fieldstr0, Some tagstr0) \<Rightarrow>
                (case tags_loop m3 ts tagstr0 of (tagstr', m4) \<Rightarrow>
                 case fields_loop libc m4 fs fieldstr0 of (fieldstr', m5) \<Rightarrow>
                 (case (tagstr', fieldstr') of
                    (Some tg, Some fl) \<Rightarrow> fstring m5 (ms @ '','' @ tg @ '' '' @ fl @ '' '' @ stamp)
                  | _ \<Rightarrow> (None, m5)))
            | _ \<Rightarrow> (None, m3)))
      | _ \<Rightarrow> (None, m))"

section \<open>Delivery (influx.c)\<close>

text \<open>
  What \<open>curl_easy_perform\<close> reports for one transfer, as the program sees it:
  \<open>CURLE_OK\<close> with the response body that reached \<open>response_callback\<close> (\<open>None\<close> when the
  server sent none), \<open>CURLE_HTTP_RETURNED_ERROR\<close> with the status that
  \<open>CURLINFO_RESPONSE_CODE\<close> then gives, or any other code. The program sets
  \<open>CURLOPT_FAILONERROR\<close>, with which libcurl reports a status of 400 and above as
  \<open>CURLE_HTTP_RETURNED_ERROR\<close>.
\<close>

datatype transfer =
  CURLE_OK "string option"
| CURLE_HTTP_RETURNED_ERROR int
| CURLE_other

text \<open>
  A request as handed to libcurl: the custom header list in force (\<open>None\<close> when
  \<open>CURLOPT_HTTPHEADER\<close> was never set on the handle) and the body read through
  \<open>request_callback\<close>.
\<close>

record request =
  req_headers :: "string list option"
  req_body :: string

text \<open>
  The handle keeps its options between calls, and \<open>CURLOPT_HTTPHEADER\<close> keeps the
  pointer that it was given, not a copy of the list. That pointer is \<open>Null\<close> (never
  set), \<open>Live hs\<close> (it points to the list \<open>hs\<close>) or \<open>Dangling\<close> (the list that it
  pointed to has been freed). \<open>slist_of\<close> is the list that libcurl reads through it.
\<close>

datatype slist_ptr = Null | Live "string list" | Dangling

fun slist_of :: "slist_ptr \<Rightarrow> string list option" where
  "slist_of Null = None"
| "slist_of (Live hs) = Some hs"
| "slist_of Dangling = None"

record curl_easy =
  httpheader :: slist_ptr

record influx_writer =
  curl :: "curl_easy option"
  precision :: influx_precision

text \<open>
  The environment of a delivery: the transfer that libcurl performs for a request, whether
  every \<open>curl_easy_setopt\<close> call succeeds, and the value of \<open>getenv("INFLUXDB_TOKEN")\<close>.
\<close>

record world =
  perform :: "request \<Rightarrow> transfer"
  setopt_ok :: bool
  token :: "string option"

text \<open>
  The result of a post: the returned \<open>int\<close>, the pointer stored in \<open>*response\<close> (if any),
  the writer after the call and the request that was performed (if any).
\<close>

record post_result =
  p_ret :: int
  p_response :: "string option"
  p_ctx :: "influx_writer option"
  p_sent :: "request option"

text \<open>
  \<open>influx_http_post\<close>. \<open>want_response\<close> says whether the \<open>response\<close> pointer is not
  \<open>NULL\<close>. The initialiser of \<open>req\<close> calls \<open>strlen(lines)\<close> before any check: with
  \<open>lines = NULL\<close> the behaviour is undefined, which is the result \<open>None\<close>. So is
  \<open>curl_easy_perform\<close> on a handle whose header pointer dangles: libcurl reads the
  freed list. The cast \<open>(int) http_status\<close> keeps the low 32 bits.
\<close>

definition influx_http_post ::
  "world \<Rightarrow> influx_writer option \<Rightarrow> string option \<Rightarrow> string list option \<Rightarrow> bool
     \<Rightarrow> post_result option" where
  "influx_http_post w ctx lines headers want_response =
     (case lines of
        None \<Rightarrow> None
      | Some body \<Rightarrow>
          (case ctx of
             None \<Rightarrow> Some \<lparr>p_ret = - 1, p_response = None, p_ctx = ctx, p_sent = None\<rparr>
           | Some wr \<Rightarrow>
               (case curl wr of
                  None \<Rightarrow> Some \<lparr>p_ret = - 1, p_response = None, p_ctx = ctx, p_sent = None\<rparr>
                | Some c \<Rightarrow>
                    if \<not> setopt_ok w
                    then Some \<lparr>p_ret = - 1, p_response = None, p_ctx = ctx, p_sent = None\<rparr>
                    else
                      (let c' = (case headers of
                                   None \<Rightarrow> c
                                 | Some hs \<Rightarrow> c\<lparr>httpheader := Live hs\<rparr>);
                           req = \<lparr>req_headers = slist_of (httpheader c'), req_body = body\<rparr>;
                           ctx' = Some (wr\<lparr>curl := Some c'\<rparr>)
                       in if httpheader c' = Dangling then None
                          else
                            Some
                              (case perform w req of
                                 CURLE_OK resp \<Rightarrow>
                                   \<lparr>p_ret = 0,
                                    p_response = (if want_response then resp else None),
                                    p_ctx = ctx', p_sent = Some req\<rparr>
                               | CURLE_HTTP_RETURNED_ERROR http_status \<Rightarrow>
                                   \<lparr>p_ret = sint (word_of_int http_status :: 32 word),
                                    p_response = None, p_ctx = ctx', p_sent = Some req\<rparr>
                               | CURLE_other \<Rightarrow>
                                   \<lparr>p_ret = - 1, p_response = None,
                                    p_ctx = ctx', p_sent = Some req\<rparr>)))))"

text \<open>
  \<open>slist_append\<close>: \<open>curl_slist_append\<close> with the list freed (and \<open>NULL\<close> returned)
  when it fails. A \<open>NULL\<close> list is the empty list.
\<close>

definition slist_append :: "allocs \<Rightarrow> string list option \<Rightarrow> string \<Rightarrow> string list option \<times> allocs" where
  "slist_append m s h =
     (case alloc m of
        (False, m') \<Rightarrow> (None, m')
      | (True, m') \<Rightarrow> (Some ((case s of None \<Rightarrow> [] | Some hs \<Rightarrow> hs) @ [h]), m'))"

text \<open>
  \<open>curl_slist_free_all s\<close> as it bears on a writer: a \<open>NULL\<close> list is left alone, and
  after the list \<open>hs\<close> is freed the pointer to it that the handle holds dangles. (The
  functions of this file free a header list before they return, so that a handle never
  points to a list other than the one that the running call has given it.)
\<close>

definition curl_slist_free_all ::
  "string list option \<Rightarrow> influx_writer option \<Rightarrow> influx_writer option" where
  "curl_slist_free_all s ctx =
     (case s of
        None \<Rightarrow> ctx
      | Some hs \<Rightarrow>
          map_option
            (\<lambda>wr. wr\<lparr>curl := map_option
                       (\<lambda>c. if httpheader c = Live hs then c\<lparr>httpheader := Dangling\<rparr> else c)
                       (curl wr)\<rparr>)
            ctx)"

text \<open>
  \<open>influx_lines_post\<close>. The header list is freed after \<open>influx_http_post\<close> has returned,
  while the handle keeps the pointer to it. (When \<open>fstring\<close> fails the list is freed
  before the handle has seen it.)
\<close>

definition influx_lines_post ::
  "world \<Rightarrow> allocs \<Rightarrow> influx_writer option \<Rightarrow> string option \<Rightarrow> bool
     \<Rightarrow> post_result option \<times> allocs" where
  "influx_lines_post w m ctx lines want_response =
     (case slist_append m None ''Accept: application/json'' of (headers1, m1) \<Rightarrow>
      case slist_append m1 headers1 ''Content-Type: text/plain; charset=utf-8'' of (headers2, m2) \<Rightarrow>
      (case token w of
         None \<Rightarrow>
           (map_option (\<lambda>r. r\<lparr>p_ctx := curl_slist_free_all headers2 (p_ctx r)\<rparr>)
              (influx_http_post w ctx lines headers2 want_response), m2)
       | Some tok \<Rightarrow>
           (case fstring m2 (''Authorization: Token '' @ tok) of
              (None, m3) \<Rightarrow>
                (Some \<lparr>p_ret = - 1, p_response = None, p_ctx = ctx, p_sent = None\<rparr>, m3)
            | (Some authorization, m3) \<Rightarrow>
                (case slist_append m3 headers2 authorization of (headers3, m4) \<Rightarrow>
                 (map_option (\<lambda>r. r\<lparr>p_ctx := curl_slist_free_all headers3 (p_ctx r)\<rparr>)
                    (influx_http_post w ctx lines headers3 want_response), m4)))))"

text \<open>
  The loop of \<open>influx_writer_write\<close> that joins the lines; the first component of the
  result is \<open>False\<close> when the loop was left by \<open>return -1\<close>.
\<close>

fun lines_loop :: "allocs \<Rightarrow> string list \<Rightarrow> string option \<Rightarrow> bool \<times> string option \<times> allocs" where
  "lines_loop m [] data = (True, data, m)"
| "lines_loop m (l # ls) data =
     (case fstringa m data (l @ [CHR 0x0A]) of
        (None, m') \<Rightarrow> (False, None, m')
      | (Some data', m') \<Rightarrow> lines_loop m' ls (Some data'))"

definition influx_writer_write ::
  "world \<Rightarrow> allocs \<Rightarrow> influx_writer option \<Rightarrow> string list \<Rightarrow> bool
     \<Rightarrow> post_result option \<times> allocs" where
  "influx_writer_write w m ctx lines want_response =
     (case lines_loop m lines None of
        (False, data, m') \<Rightarrow>
          (Some \<lparr>p_ret = - 1, p_response = None, p_ctx = ctx, p_sent = None\<rparr>, m')
      | (True, data, m') \<Rightarrow> influx_lines_post w m' ctx data want_response)"

section \<open>Acquisition cycle (modbus.c, main)\<close>

text \<open>
  \<open>modbus_read_registers(mb, addr, nb, regs)\<close> returns \<open>rc\<close>, the number of registers
  read or a negative value, and fills the buffer \<open>regs\<close>. The bus answers for the slave
  selected with \<open>modbus_set_slave\<close>; within one cycle each block of each meter is read at
  most once, so the bus of a cycle is a function of slave, address and count.
\<close>

record reply =
  rc :: int
  regs :: "16 word list"


















section \<open>The line format in the words of the specification\<close>

text \<open>
  Strings joined by commas; the tags and the fields that are rendered, in input order,
  each as \<open>name=value\<close>; and the timestamp text for a clock value.
\<close>

fun join_commas :: "string list \<Rightarrow> string" where
  "join_commas [] = []"
| "join_commas [p] = p"
| "join_commas (p # q # ps) = p @ '','' @ join_commas (q # ps)"

definition spec_tags :: "tag list \<Rightarrow> string" where
  "spec_tags ts =
     join_commas (map (\<lambda>t. t_name t @ ''='' @ t_value t)
                      (filter (\<lambda>t. t_name t \<noteq> [] \<and> t_value t \<noteq> []) ts))"

definition spec_fields :: "'d libc \<Rightarrow> 'd field list \<Rightarrow> string" where
  "spec_fields libc fs =
     join_commas (map (\<lambda>f. f_name f @ ''='' @ fmt_f libc (f_value f))
                      (filter (\<lambda>f. f_name f \<noteq> []) fs))"

definition spec_timestamp :: "'d libc \<Rightarrow> timespec \<Rightarrow> influx_precision \<Rightarrow> string" where
  "spec_timestamp libc ts prec =
     fmt_ld (tv_sec ts)
       @ (if prec = INFLUX_PRECISION_S then [] else fmt_subsec libc (tv_nsec ts) prec)"

text \<open>
  What the tag loop and the field loop compute, used in the proofs: the pieces
  \<open>name=value\<close> that are rendered, and the text \<open>acc\<close> extended by pieces, with a comma
  before a piece unless the text so far is empty.
\<close>

fun sep_append :: "string \<Rightarrow> string list \<Rightarrow> string" where
  "sep_append acc [] = acc"
| "sep_append acc (p # ps) = sep_append (acc @ (if acc = [] then [] else '','') @ p) ps"

definition tag_pieces :: "tag list \<Rightarrow> string list" where
  "tag_pieces ts = map (\<lambda>t. t_name t @ ''='' @ t_value t)
                      (filter (\<lambda>t. t_name t \<noteq> [] \<and> t_value t \<noteq> []) ts)"

definition field_pieces :: "'d libc \<Rightarrow> 'd field list \<Rightarrow> string list" where
  "field_pieces libc fs = map (\<lambda>f. f_name f @ ''='' @ fmt_f libc (f_value f))
                      (filter (\<lambda>f. f_name f \<noteq> []) fs)"

text \<open>
  A text is in fixed notation with six decimals when it is an optional minus sign, at
  least one decimal digit, a point and exactly six decimal digits: there is no exponent
  in it.
\<close>

definition is_digit :: "char \<Rightarrow> bool" where
  "is_digit c \<longleftrightarrow> c \<in> set ''0123456789''"

definition fixed_notation :: "string \<Rightarrow> bool" where
  "fixed_notation s =
     (let body = (if s \<noteq> [] \<and> hd s = CHR ''-'' then tl s else s);
          whole = takeWhile is_digit body;
          rest = dropWhile is_digit body
      in whole \<noteq> [] \<and> length rest = 7 \<and> hd rest = CHR ''.'' \<and> list_all is_digit (tl rest))"

text \<open>
  The request in the words of the specification: the two fixed headers, followed by the
  authorization header when the secret is set; and the body, every line followed by a
  newline.
\<close>

definition spec_headers :: "string option \<Rightarrow> string list" where
  "spec_headers tok =
     [''Accept: application/json'', ''Content-Type: text/plain; charset=utf-8'']
       @ (case tok of None \<Rightarrow> [] | Some secret \<Rightarrow> [''Authorization: Token '' @ secret])"

definition spec_body :: "string list \<Rightarrow> string" where
  "spec_body lines = concat (map (\<lambda>l. l @ [CHR 0x0A]) lines)"









section \<open>Values for the examples\<close>

text \<open>
  A C library for doubles that are whole numbers, given as integers: \<open>%f\<close> prints such a
  double with six zeros after the point, and \<open>%.0f\<close> at nanosecond precision prints the
  nanoseconds. The clock stands at 1700000000 s.
\<close>

definition example_libc :: "int libc" where
  "example_libc =
     \<lparr>fmt_f = (\<lambda>v. fmt_ld v @ ''.000000''),
      fmt_subsec = (\<lambda>nsec prec. fmt_ld nsec),
      realtime = Some \<lparr>tv_sec = 1700000000, tv_nsec = 0\<rparr>\<rparr>"

text \<open>
  The C library for doubles, with \<open>%f\<close> as defined above; the clock stands at
  1700000000 s, and \<open>%.0f\<close> at nanosecond precision prints the nanoseconds.
\<close>

definition printf_libc :: "double libc" where
  "printf_libc =
     \<lparr>fmt_f = printf_f,
      fmt_subsec = (\<lambda>nsec prec. fmt_ld nsec),
      realtime = Some \<lparr>tv_sec = 1700000000, tv_nsec = 0\<rparr>\<rparr>"

text \<open>
  Three servers: one that answers 201 with a body, one that answers 401, and one that
  cannot be reached. The secret is set for the first only. The writer is a fresh one.
\<close>

definition world_201 :: world where
  "world_201 = \<lparr>perform = (\<lambda>req. CURLE_OK (Some ''{}'')), setopt_ok = True,
                 token = Some ''secret''\<rparr>"

definition world_401 :: world where
  "world_401 = \<lparr>perform = (\<lambda>req. CURLE_HTTP_RETURNED_ERROR 401), setopt_ok = True,
                 token = None\<rparr>"


definition fresh_writer :: influx_writer where
  "fresh_writer = \<lparr>curl = Some \<lparr>httpheader = Null\<rparr>, precision = INFLUX_PRECISION_S\<rparr>"

text \<open>The same writer after a write: the header list of that write has been freed.\<close>

definition used_writer :: influx_writer where
  "used_writer = \<lparr>curl = Some \<lparr>httpheader = Dangling\<rparr>, precision = INFLUX_PRECISION_S\<rparr>"





section \<open>Well-formed field lists\<close>

text \<open>
  The lists that the interface produces: \<open>influx_field_list_create\<close> returns a zeroed
  structure, and a history of \<open>influx_field_list_append\<close> calls, each with the outcomes
  of its allocations, a field name and a value, leads from there to the heap and the list
  of \<open>appends\<close>. (A call on a list that is not \<open>NULL\<close> leaves the pointer as it is, so
  the \<open>None\<close> case below never arises.)
\<close>

fun appends ::
  "'d heap \<Rightarrow> influx_field_list \<Rightarrow> (allocs \<times> string \<times> 'd) list \<Rightarrow> 'd heap \<times> influx_field_list" where
  "appends h l [] = (h, l)"
| "appends h l ((m, field, val) # ops) =
     (let r = influx_field_list_append m h (Some l) field val
      in appends (a_heap r) (case a_lst r of None \<Rightarrow> l | Some l' \<Rightarrow> l') ops)"

text \<open>
  \<open>last_is_tail h l\<close>: when both \<open>next\<close> and \<open>last\<close> of the list are set, \<open>last\<close>
  points to an allocated element that has no successor. \<open>well_linked h l\<close> asks in
  addition that \<open>last\<close> is set whenever \<open>next\<close> is, which is the check that
  \<open>influx_field_list_append\<close> itself makes.
\<close>

definition last_is_tail :: "'d heap \<Rightarrow> influx_field_list \<Rightarrow> bool" where
  "last_is_tail h l =
     (case (lst_next l, lst_last l) of
        (Some a, Some b) \<Rightarrow> b < length h \<and> elem_next (h ! b) = None
      | _ \<Rightarrow> True)"

definition well_linked :: "'d heap \<Rightarrow> influx_field_list \<Rightarrow> bool" where
  "well_linked h l =
     (case lst_next l of
        None \<Rightarrow> True
      | Some a \<Rightarrow>
          (case lst_last l of
             None \<Rightarrow> False
           | Some b \<Rightarrow> b < length h \<and> elem_next (h ! b) = None))"


section \<open>Properties of the register decoder\<close>

lemma unat_reg_bound: "unat (w :: 16 word) < 65536"
  using unsigned_less [of w, where 'a = nat] by simp

lemma push_bit_or_low:
  fixes x y :: nat
  assumes "y < 2 ^ n"
  shows "push_bit n x OR y = x * 2 ^ n + y"
proof -
  have "take_bit n y = y"
    using assms by (simp add: take_bit_nat_eq_self)
  then have "\<not> bit (push_bit n x) k \<or> \<not> bit y k" for k
    by (metis bit_push_bit_iff bit_take_bit_iff not_le)
  then have "push_bit n x + y = push_bit n x OR y"
    by (rule disjunctive_add)
  then show ?thesis
    by (simp add: push_bit_eq_mult)
qed

lemma unat_shifted_reg32:
  fixes w :: "16 word"
  assumes "n \<le> 16"
  shows "unat (push_bit n (ucast w :: 32 word)) = push_bit n (unat w)"
proof -
  have "unat w * 2 ^ n < 2 ^ 16 * 2 ^ n"
    using unat_reg_bound [of w] by simp
  also have "\<dots> = (2::nat) ^ (16 + n)"
    by (simp add: power_add)
  also have "\<dots> \<le> 2 ^ 32"
    using assms by (intro power_increasing) simp_all
  finally have "push_bit n (unat w) < 2 ^ 32"
    by (simp add: push_bit_eq_mult)
  then show ?thesis
    using unat_reg_bound [of w]
    by (simp add: unsigned_push_bit_eq unsigned_ucast_eq take_bit_nat_eq_self)
qed

lemma unat_shifted_reg64:
  fixes w :: "16 word"
  assumes "n \<le> 48"
  shows "unat (push_bit n (ucast w :: 64 word)) = push_bit n (unat w)"
proof -
  have "unat w * 2 ^ n < 2 ^ 16 * 2 ^ n"
    using unat_reg_bound [of w] by simp
  also have "\<dots> = (2::nat) ^ (16 + n)"
    by (simp add: power_add)
  also have "\<dots> \<le> 2 ^ 64"
    using assms by (intro power_increasing) simp_all
  finally have "push_bit n (unat w) < 2 ^ 64"
    by (simp add: push_bit_eq_mult)
  then show ?thesis
    using unat_reg_bound [of w]
    by (simp add: unsigned_push_bit_eq unsigned_ucast_eq take_bit_nat_eq_self)
qed

lemma unat_regs2uint32:
  "unat (regs2uint32 [w0, w1]) = unat w0 * 2 ^ 16 + unat w1"
proof -
  have "unat (regs2uint32 [w0, w1]) = push_bit 16 (unat w0) OR unat w1"
    using unat_shifted_reg32 [of 0 w1]
    by (simp add: regs2uint32_def unsigned_or_eq unat_shifted_reg32)
  also have "\<dots> = unat w0 * 2 ^ 16 + unat w1"
    using unat_reg_bound [of w1] by (intro push_bit_or_low) simp
  finally show ?thesis .
qed

lemma unat_regs2uint64:
  "unat (regs2uint64 [w0, w1, w2, w3]) =
     unat w0 * 2 ^ 48 + unat w1 * 2 ^ 32 + unat w2 * 2 ^ 16 + unat w3"
proof -
  let ?a = "unat w0" and ?b = "unat w1" and ?c = "unat w2" and ?d = "unat w3"
  have bd: "?a < 65536" "?b < 65536" "?c < 65536" "?d < 65536"
    by (rule unat_reg_bound)+
  have "unat (regs2uint64 [w0, w1, w2, w3])
      = push_bit 48 ?a OR push_bit 32 ?b OR push_bit 16 ?c OR ?d"
    using unat_shifted_reg64 [of 0 w3]
    by (simp add: regs2uint64_def unsigned_or_eq unat_shifted_reg64)
  also have "push_bit 16 ?c OR ?d = ?c * 2 ^ 16 + ?d"
    using bd by (intro push_bit_or_low) simp
  also have "push_bit 32 ?b OR (?c * 2 ^ 16 + ?d) = ?b * 2 ^ 32 + (?c * 2 ^ 16 + ?d)"
    using bd by (intro push_bit_or_low) simp
  also have "push_bit 48 ?a OR (?b * 2 ^ 32 + (?c * 2 ^ 16 + ?d))
      = ?a * 2 ^ 48 + (?b * 2 ^ 32 + (?c * 2 ^ 16 + ?d))"
    using bd by (intro push_bit_or_low) simp
  finally show ?thesis
    by simp
qed

text \<open>
  Claim C3. On two registers \<open>regs2uint32\<close> returns \<open>(words[0] << 16) | words[1]\<close>, and
  on four registers \<open>regs2uint64\<close> returns
  \<open>(words[0] << 48) | (words[1] << 32) | (words[2] << 16) | words[3]\<close>: the big-endian
  concatenation, whose unsigned value is the positional sum of the registers in base
  \<open>2^16\<close> with \<open>words[0]\<close> most significant. In particular \<open>[0x0000, 0x0000]\<close> decodes
  to \<open>0\<close> and \<open>[0xFFFF, 0xFFFF]\<close> to \<open>0xFFFFFFFF\<close>.
\<close>

theorem regs2uint_big_endian:
  "regs2uint32 [w0, w1] = push_bit 16 (ucast w0) OR ucast w1
   \<and> unat (regs2uint32 [w0, w1]) = unat w0 * 2 ^ 16 + unat w1
   \<and> regs2uint64 [v0, v1, v2, v3]
       = push_bit 48 (ucast v0) OR push_bit 32 (ucast v1) OR push_bit 16 (ucast v2) OR ucast v3
   \<and> unat (regs2uint64 [v0, v1, v2, v3])
       = unat v0 * 2 ^ 48 + unat v1 * 2 ^ 32 + unat v2 * 2 ^ 16 + unat v3
   \<and> regs2uint32 [0x0000, 0x0000] = 0
   \<and> regs2uint32 [0xFFFF, 0xFFFF] = 0xFFFFFFFF
   \<and> regs2uint64 [0x0123, 0x4567, 0x89AB, 0xCDEF] = 0x0123456789ABCDEF"
proof (intro conjI)
  show "unat (regs2uint32 [w0, w1]) = unat w0 * 2 ^ 16 + unat w1"
    by (rule unat_regs2uint32)
  show "unat (regs2uint64 [v0, v1, v2, v3])
       = unat v0 * 2 ^ 48 + unat v1 * 2 ^ 32 + unat v2 * 2 ^ 16 + unat v3"
    by (rule unat_regs2uint64)
qed (simp_all add: regs2uint32_def regs2uint64_def)

section \<open>Properties of the scheduler\<close>

lemma trunc_sign:
  fixes k :: int
  shows "(k sdiv 1000000000 < 0 \<or> (k sdiv 1000000000 = 0 \<and> k smod 1000000000 < 0)) \<longleftrightarrow> k < 0"
proof (cases "k < 0")
  case True
  let ?q = "(- k) div 1000000000" and ?r = "(- k) mod 1000000000"
  have q: "k sdiv 1000000000 = - ?q" and r: "k smod 1000000000 = - ?r"
    using True by (simp_all add: signed_divide_int_def signed_modulo_int_def)
  have "0 \<le> ?q" "0 \<le> ?r"
    using True by simp_all
  moreover have "?q = 0 \<Longrightarrow> ?r = - k"
    using div_mult_mod_eq [of "- k" 1000000000] by simp
  ultimately show ?thesis
    using True unfolding q r by auto
next
  case False
  then have "0 \<le> k sdiv 1000000000" "0 \<le> k smod 1000000000"
    by (simp_all add: signed_divide_int_def signed_modulo_int_def sgn_if)
  with False show ?thesis by auto
qed

lemma ts_diff_defined:
  assumes "normalised a" and "normalised b"
      and "\<bar>tv_sec a - tv_sec b\<bar> \<le> k" and "1000000000 * (k + 1) \<le> long_max"
  shows "\<exists>d. ts_diff long_max a b = Defined d \<and> (in_the_past d \<longleftrightarrow> nsec_between a b < 0)"
proof -
  let ?ds = "tv_sec a - tv_sec b" and ?n = "tv_nsec a - tv_nsec b"
  have n: "\<bar>?n\<bar> < 1000000000"
    using assms(1,2) by (auto simp: normalised_def)
  have k: "0 \<le> k"
    using assms(3) by linarith
  have p: "\<bar>1000000000 * ?ds\<bar> \<le> 1000000000 * k"
    using assms(3) by (simp add: abs_mult)
  have "in_long long_max ?ds" "in_long long_max (1000000000 * ?ds)" "in_long long_max ?n"
    "in_long long_max (1000000000 * ?ds + ?n)"
    using n k p assms(3,4) by (auto simp: in_long_def)
  then show ?thesis
    by (simp add: ts_diff_def Let_def in_the_past_def trunc_sign nsec_between_def)
qed

lemma advance_defined:
  assumes "0 \<le> tv_sec spec" and "tv_sec spec + 5 \<le> long_max"
  shows "\<exists>spec'. advance long_max spec = Defined spec' \<and> tv_nsec spec' = 0
           \<and> tv_sec spec < tv_sec spec' \<and> tv_sec spec' \<le> tv_sec spec + 5
           \<and> tv_sec spec' - tv_sec spec =
               (if tv_sec spec mod INTERVAL = 0 then INTERVAL else tv_sec spec mod INTERVAL)"
proof -
  let ?step = "if tv_sec spec mod INTERVAL = 0 then INTERVAL else tv_sec spec mod INTERVAL"
  have sm: "tv_sec spec smod INTERVAL = tv_sec spec mod INTERVAL"
    using assms(1) by (simp add: signed_modulo_int_def sgn_if INTERVAL_def)
  have step: "0 < ?step" "?step \<le> 5"
    unfolding INTERVAL_def by presburger+
  then have "in_long long_max (tv_sec spec + ?step)"
    using assms by (auto simp: in_long_def)
  then show ?thesis
    using step by (auto simp: advance_def Let_def sm)
qed

lemma increment_time_returns:
  assumes "0 \<le> tv_sec spec" and "normalised spec" and "normalised now"
      and "\<bar>tv_sec spec - tv_sec now\<bar> \<le> k" and "5 \<le> k"
      and "1000000000 * (k + 1) \<le> long_max" and "tv_sec now + 5 \<le> long_max"
  shows "\<exists>r d. increment_time long_max now spec = Some (Defined r)
           \<and> ts_diff long_max r now = Defined d \<and> \<not> in_the_past d"
  using assms(1,2,4)
proof (induction "nat (- nsec_between spec now)" arbitrary: spec rule: less_induct)
  case less
  obtain d where d: "ts_diff long_max spec now = Defined d"
    and past: "in_the_past d \<longleftrightarrow> nsec_between spec now < 0"
    using ts_diff_defined [OF less.prems(2) assms(3) less.prems(3) assms(6)] by blast
  show ?case
  proof (cases "in_the_past d")
    case False
    with d show ?thesis
      by (subst increment_time.simps) simp
  next
    case True
    then have neg: "nsec_between spec now < 0"
      using past by simp
    have le: "tv_sec spec \<le> tv_sec now"
      using neg less.prems(2) assms(3) by (auto simp: nsec_between_def normalised_def)
    then obtain spec' where a: "advance long_max spec = Defined spec'"
      and z: "tv_nsec spec' = 0" and up: "tv_sec spec < tv_sec spec'"
      and up5: "tv_sec spec' \<le> tv_sec spec + 5"
      using advance_defined [OF less.prems(1), of long_max] assms(7) by auto
    have "nsec_between spec now < nsec_between spec' now"
      using up z less.prems(2) by (simp add: nsec_between_def normalised_def)
    with neg have m: "nat (- nsec_between spec' now) < nat (- nsec_between spec now)"
      by simp
    have "0 \<le> tv_sec spec'" "normalised spec'" "\<bar>tv_sec spec' - tv_sec now\<bar> \<le> k"
      using up up5 le z less.prems(1,3) assms(5) by (auto simp: normalised_def)
    then have "\<exists>r d. increment_time long_max now spec' = Some (Defined r)
           \<and> ts_diff long_max r now = Defined d \<and> \<not> in_the_past d"
      using less.hyps [OF m] by blast
    with True d a show ?thesis
      by (subst increment_time.simps) simp
  qed
qed

text \<open>
  A target that is not on a multiple of \<open>INTERVAL\<close> seconds is never moved onto one:
  the loop body adds the remainder, not what is missing to the next multiple. With a
  negative, unaligned \<open>tv_sec\<close> the remainder of C is negative and the loop body moves
  the target backwards.
\<close>

lemma advance_stays_unaligned:
  assumes "0 \<le> tv_sec spec" and "tv_sec spec mod INTERVAL \<noteq> 0"
      and "advance long_max spec = Defined spec'"
  shows "tv_sec spec' mod INTERVAL \<noteq> 0"
proof -
  have "tv_sec spec smod INTERVAL = tv_sec spec mod INTERVAL"
    using assms(1) by (simp add: signed_modulo_int_def sgn_if INTERVAL_def)
  then have "tv_sec spec' = tv_sec spec + tv_sec spec mod INTERVAL"
    using assms(2,3) by (auto simp: advance_def Let_def split: if_splits)
  then show ?thesis
    using assms(2) unfolding INTERVAL_def by presburger
qed

lemma advance_decreases_negative:
  assumes "tv_sec spec < 0" and "tv_sec spec mod INTERVAL \<noteq> 0"
      and "advance long_max spec = Defined spec'"
  shows "tv_sec spec' < tv_sec spec"
proof -
  have sm: "tv_sec spec smod INTERVAL = - ((- tv_sec spec) mod 5)"
    using assms(1) by (simp add: signed_modulo_int_def INTERVAL_def)
  have "(- tv_sec spec) mod 5 \<noteq> 0"
    using assms(2) by (simp add: INTERVAL_def mod_minus_eq zmod_zminus1_not_zero)
  moreover have "0 \<le> (- tv_sec spec) mod 5"
    by simp
  ultimately show ?thesis
    using assms(3) by (auto simp: advance_def Let_def sm split: if_splits)
qed

text \<open>
  Claim C10 as stated fails: the locals of \<open>ts_diff\<close> are \<open>long\<close>s and the product
  \<open>1000000000 * diff_sec\<close> does not fit for every pair of a target and a clock reading.
  With a 64-bit \<open>long\<close>, a target of 0 s and the clock at 10000000000 s, and with a
  32-bit \<open>long\<close> already for a target 3 s behind the clock, the first \<open>ts_diff\<close>
  overflows: the behaviour is undefined, and nothing brings the target up to the clock.
\<close>

theorem increment_time_overflows:
  "increment_time 9223372036854775807 \<lparr>tv_sec = 10000000000, tv_nsec = 0\<rparr>
       \<lparr>tv_sec = 0, tv_nsec = 0\<rparr> = Some Undefined
   \<and> increment_time 2147483647 \<lparr>tv_sec = 3, tv_nsec = 0\<rparr> \<lparr>tv_sec = 0, tv_nsec = 0\<rparr>
       = Some Undefined"
  by (simp add: increment_time.simps ts_diff_def in_long_def)

text \<open>
  Claim C10, amended. For a normalised target whose \<open>tv_sec\<close> is not negative and a
  normalised clock reading, such that target and clock can each be advanced by
  \<open>INTERVAL\<close> and their distance, with six seconds added, is a number of nanoseconds
  that fits a \<open>long\<close>, \<open>increment_time\<close> terminates without overflow, with a target
  that is not before the clock reading: every run of the loop body makes \<open>tv_sec\<close>
  strictly larger, by \<open>INTERVAL\<close> when \<open>tv_sec\<close> is a multiple of it and by the
  (positive) remainder otherwise.
\<close>

theorem increment_time_terminates:
  assumes "0 \<le> tv_sec spec"
      and "0 \<le> tv_nsec spec \<and> tv_nsec spec < 1000000000"
      and "0 \<le> tv_nsec now \<and> tv_nsec now < 1000000000"
      and "tv_sec spec + 5 \<le> long_max" and "tv_sec now + 5 \<le> long_max"
      and "1000000000 * (\<bar>tv_sec spec - tv_sec now\<bar> + 6) \<le> long_max"
  shows "(\<exists>r d. increment_time long_max now spec = Some (Defined r)
            \<and> ts_diff long_max r now = Defined d \<and> \<not> in_the_past d)
       \<and> (\<exists>spec'. advance long_max spec = Defined spec' \<and> tv_sec spec < tv_sec spec'
            \<and> tv_sec spec' - tv_sec spec =
                (if tv_sec spec mod INTERVAL = 0 then INTERVAL else tv_sec spec mod INTERVAL))"
proof
  show "\<exists>r d. increment_time long_max now spec = Some (Defined r)
            \<and> ts_diff long_max r now = Defined d \<and> \<not> in_the_past d"
    using assms
    by (intro increment_time_returns [where k = "\<bar>tv_sec spec - tv_sec now\<bar> + 5"])
      (simp_all add: normalised_def)
  show "\<exists>spec'. advance long_max spec = Defined spec' \<and> tv_sec spec < tv_sec spec'
            \<and> tv_sec spec' - tv_sec spec =
                (if tv_sec spec mod INTERVAL = 0 then INTERVAL else tv_sec spec mod INTERVAL)"
    using advance_defined [OF assms(1,4)] by blast
qed

theorem increment_time_terminates_witness:
  "0 \<le> tv_sec \<lparr>tv_sec = 7, tv_nsec = 250\<rparr>
   \<and> 0 \<le> tv_nsec \<lparr>tv_sec = 7, tv_nsec = 250\<rparr>
   \<and> tv_nsec \<lparr>tv_sec = 7, tv_nsec = 250\<rparr> < 1000000000
   \<and> 0 \<le> tv_nsec \<lparr>tv_sec = 21, tv_nsec = 0\<rparr>
   \<and> tv_nsec \<lparr>tv_sec = 21, tv_nsec = 0\<rparr> < 1000000000
   \<and> tv_sec \<lparr>tv_sec = 7, tv_nsec = 250\<rparr> + 5 \<le> 9223372036854775807
   \<and> tv_sec \<lparr>tv_sec = 21, tv_nsec = 0\<rparr> + 5 \<le> 9223372036854775807
   \<and> 1000000000 * (\<bar>tv_sec \<lparr>tv_sec = 7, tv_nsec = 250\<rparr>
                       - tv_sec \<lparr>tv_sec = 21, tv_nsec = 0\<rparr>\<bar> + 6) \<le> 9223372036854775807
   \<and> (\<exists>r d. increment_time 9223372036854775807 \<lparr>tv_sec = 21, tv_nsec = 0\<rparr>
              \<lparr>tv_sec = 7, tv_nsec = 250\<rparr> = Some (Defined r)
          \<and> ts_diff 9223372036854775807 r \<lparr>tv_sec = 21, tv_nsec = 0\<rparr> = Defined d
          \<and> \<not> in_the_past d)
   \<and> (\<exists>spec'. advance 9223372036854775807 \<lparr>tv_sec = 7, tv_nsec = 250\<rparr> = Defined spec'
          \<and> tv_sec \<lparr>tv_sec = 7, tv_nsec = 250\<rparr> < tv_sec spec')"
  using increment_time_terminates [of "\<lparr>tv_sec = 7, tv_nsec = 250\<rparr>"
      "\<lparr>tv_sec = 21, tv_nsec = 0\<rparr>" 9223372036854775807]
  by auto

text \<open>
  Claim C1 (the code departs from it). The comment in \<open>wait_until_and_increment\<close> says
  that the target is advanced in increments of \<open>INTERVAL\<close> seconds until the difference
  is positive. The code does otherwise, with a 64-bit and with a 32-bit \<open>long\<close> alike:
  from the target 7 s with the clock at 8 s it stops at 9 s, which is no multiple of 5 s
  (the smallest one in the future is 10 s); and a target equal to the clock reading is
  left where it is, so that the wait handed to \<open>usleep\<close> is 0.
\<close>

theorem increment_time_misses_boundary:
  "increment_time 9223372036854775807 \<lparr>tv_sec = 8, tv_nsec = 0\<rparr> \<lparr>tv_sec = 7, tv_nsec = 0\<rparr>
     = Some (Defined \<lparr>tv_sec = 9, tv_nsec = 0\<rparr>)
   \<and> increment_time 2147483647 \<lparr>tv_sec = 8, tv_nsec = 0\<rparr> \<lparr>tv_sec = 7, tv_nsec = 0\<rparr>
     = Some (Defined \<lparr>tv_sec = 9, tv_nsec = 0\<rparr>)
   \<and> (9 :: int) mod INTERVAL \<noteq> 0
   \<and> wait_until_and_increment 9223372036854775807 \<lparr>tv_sec = 10, tv_nsec = 0\<rparr>
        \<lparr>tv_sec = 10, tv_nsec = 0\<rparr> \<lparr>tv_sec = 10, tv_nsec = 0\<rparr>
     = Some (Defined (\<lparr>tv_sec = 10, tv_nsec = 0\<rparr>, 0))
   \<and> wait_until_and_increment 2147483647 \<lparr>tv_sec = 10, tv_nsec = 0\<rparr>
        \<lparr>tv_sec = 10, tv_nsec = 0\<rparr> \<lparr>tv_sec = 10, tv_nsec = 0\<rparr>
     = Some (Defined (\<lparr>tv_sec = 10, tv_nsec = 0\<rparr>, 0))"
  by (simp add: wait_until_and_increment_def increment_time.simps in_the_past_def ts_diff_def
      advance_def INTERVAL_def in_long_def signed_divide_int_def signed_modulo_int_def)

section \<open>Properties of allocation and formatted strings\<close>

lemma alloc_no_fail: "no_fail m \<Longrightarrow> alloc m = (True, tl m)"
  by (cases m) (auto simp: no_fail_def)

lemma no_fail_tl: "no_fail m \<Longrightarrow> no_fail (tl m)"
  by (cases m) (auto simp: no_fail_def)

lemma fstringa_loop_no_fail:
  "no_fail m \<Longrightarrow> \<exists>m'. fstringa_loop m old out flen = (Some (old @ out), m') \<and> no_fail m'"
proof (induction m old out flen rule: fstringa_loop.induct)
  case (1 m old out flen)
  show ?case
  proof (cases "length out < flen")
    case True
    with "1.prems" show ?thesis
      by (subst fstringa_loop.simps) simp
  next
    case False
    have a: "alloc m = (True, tl m)"
      using "1.prems" by (rule alloc_no_fail)
    have "\<exists>m'. fstringa_loop (tl m) old out (length out + 1) = (Some (old @ out), m') \<and> no_fail m'"
      using "1.IH" [OF refl False a [symmetric] refl] "1.prems" no_fail_tl by simp
    with False a show ?thesis
      by (subst fstringa_loop.simps) (simp add: Let_def)
  qed
qed

text \<open>Whatever the allocator does, a string that is returned is the old text and the new.\<close>

lemma fstringa_loop_result:
  "fst (fstringa_loop m old out flen) = None \<or> fst (fstringa_loop m old out flen) = Some (old @ out)"
proof (induction m old out flen rule: fstringa_loop.induct)
  case (1 m old out flen)
  show ?case
  proof (cases "length out < flen")
    case True
    then show ?thesis
      by (subst (1 2) fstringa_loop.simps) simp
  next
    case False
    obtain ok m' where a: "alloc m = (ok, m')"
      by (cases "alloc m")
    show ?thesis
    proof (cases ok)
      case True
      with "1.IH" [OF refl False a [symmetric]] False a show ?thesis
        by (subst (1 2) fstringa_loop.simps) (simp add: Let_def)
    next
      case ok: False
      with False a show ?thesis
        by (subst (1 2) fstringa_loop.simps) (simp add: Let_def)
    qed
  qed
qed

lemma fstringa_no_fail:
  assumes "no_fail m"
  shows "\<exists>m'. fstringa m str out = (Some ((case str of None \<Rightarrow> [] | Some s \<Rightarrow> s) @ out), m')
           \<and> no_fail m'"
  using fstringa_loop_no_fail [OF no_fail_tl [OF assms]] assms
  by (simp add: fstringa_def alloc_no_fail)

lemma fstring_no_fail:
  "no_fail m \<Longrightarrow> \<exists>m'. fstring m out = (Some out, m') \<and> no_fail m'"
  using fstringa_no_fail [of m None out] by (simp add: fstring_def)

lemma fstringa_result:
  assumes "fstringa m str out = (Some s, m')"
  shows "s = (case str of None \<Rightarrow> [] | Some s \<Rightarrow> s) @ out"
  using assms fstringa_loop_result [of "snd (alloc m)" "case str of None \<Rightarrow> [] | Some s \<Rightarrow> s" out 1]
  by (auto simp: fstringa_def split: prod.splits bool.splits)

lemma fstring_result: "fstring m out = (Some s, m') \<Longrightarrow> s = out"
  using fstringa_result [of m None out s m'] by (simp add: fstring_def)

text \<open>
  The loop of \<open>fstringa\<close> in closed form: a text that fits the buffer is returned at
  once, and one enlargement is enough otherwise.
\<close>

lemma fstringa_loop_fits:
  "length out < flen \<Longrightarrow> fstringa_loop m old out flen = (Some (old @ out), m)"
  by (subst fstringa_loop.simps) simp

lemma fstringa_loop_grows:
  "\<not> length out < flen \<Longrightarrow>
     fstringa_loop m old out flen
       = (case alloc m of (False, m') \<Rightarrow> (None, m') | (True, m') \<Rightarrow> (Some (old @ out), m'))"
  by (subst fstringa_loop.simps)
    (simp add: fstringa_loop_fits Let_def split: prod.splits bool.splits)

lemma fstringa_eq:
  "fstringa m str out =
     (case alloc m of
        (False, m') \<Rightarrow> (None, m')
      | (True, m') \<Rightarrow>
          if out = [] then (Some (case str of None \<Rightarrow> [] | Some s \<Rightarrow> s), m')
          else (case alloc m' of
                  (False, m'') \<Rightarrow> (None, m'')
                | (True, m'') \<Rightarrow> (Some ((case str of None \<Rightarrow> [] | Some s \<Rightarrow> s) @ out), m'')))"
proof (cases "out = []")
  case True
  then show ?thesis
    by (simp add: fstringa_def fstringa_loop_fits split: prod.splits bool.splits)
next
  case False
  then have "\<not> length out < 1"
    by simp
  with False show ?thesis
    by (simp add: fstringa_def fstringa_loop_grows split: prod.splits bool.splits)
qed

section \<open>Properties of field lists\<close>

lemma elem_next_None_update: "elem_next e = None \<Longrightarrow> e\<lparr>elem_next := None\<rparr> = e"
  by (cases e) simp

lemma lst_next_None_update: "lst_next l = None \<Longrightarrow> l\<lparr>lst_next := None\<rparr> = l"
  by (cases l) simp

lemma append_well_linked:
  assumes "well_linked h l"
      and "a_lst (influx_field_list_append m h (Some l) field v) = Some l'"
  shows "well_linked (a_heap (influx_field_list_append m h (Some l) field v)) l'"
  using assms
  by (auto simp: influx_field_list_append_def well_linked_def nth_append
      split: prod.splits option.splits bool.splits)

lemma append_keeps_list:
  "a_lst (influx_field_list_append m h (Some l) field v) \<noteq> None"
  by (auto simp: influx_field_list_append_def Let_def
      split: prod.splits option.splits bool.splits)

lemma create_well_linked:
  "influx_field_list_create m = (Some l, m') \<Longrightarrow> well_linked h l"
  by (auto simp: influx_field_list_create_def well_linked_def split: prod.splits bool.splits)

lemma appends_well_linked:
  "well_linked h l \<Longrightarrow> appends h l ops = (h', l') \<Longrightarrow> well_linked h' l'"
proof (induction ops arbitrary: h l)
  case Nil
  then show ?case by simp
next
  case (Cons op ops)
  obtain m field v where op: "op = (m, field, v)"
    by (cases op)
  let ?r = "influx_field_list_append m h (Some l) field v"
  obtain l1 where l1: "a_lst ?r = Some l1"
    using append_keeps_list [of m h l field v] by auto
  have "well_linked (a_heap ?r) l1"
    using Cons.prems(1) l1 by (rule append_well_linked)
  moreover have "appends (a_heap ?r) l1 ops = (h', l')"
    using Cons.prems(2) op l1 by (simp add: Let_def)
  ultimately show ?case
    by (rule Cons.IH)
qed

lemma well_linked_last_is_tail: "well_linked h l \<Longrightarrow> last_is_tail h l"
  by (auto simp: well_linked_def last_is_tail_def split: option.splits)

lemma compact_loop_no_fail:
  "no_fail m \<Longrightarrow>
     no_fail (snd (compact_loop m h p k acc)) \<and> fst (compact_loop m h p k acc) \<noteq> None"
proof (induction m h p k acc rule: compact_loop.induct)
  case (3 m h a k acc)
  have a: "alloc m = (True, tl m)"
    using "3.prems" by (rule alloc_no_fail)
  obtain m2 where f: "fstring (tl m) (f_name (elem_f (h ! a)))
      = (Some (f_name (elem_f (h ! a))), m2)" and m2: "no_fail m2"
    using fstring_no_fail [OF no_fail_tl [OF "3.prems"]] by blast
  show ?case
    using "3.IH" [OF a [symmetric] refl f [symmetric] refl m2] a f by simp
qed simp_all

lemma compact_no_fail:
  assumes "no_fail m"
  shows "no_fail (snd (influx_field_list_compact m h (Some l)))
       \<and> fst (influx_field_list_compact m h (Some l)) \<noteq> None"
  using compact_loop_no_fail [OF no_fail_tl [OF assms]] assms
  by (simp add: influx_field_list_compact_def alloc_no_fail)

lemma append_accepted:
  assumes "no_fail m" and "well_linked h l"
  shows "a_ret (influx_field_list_append m h (Some l) field v) = 0
       \<and> map_option lst_num (a_lst (influx_field_list_append m h (Some l) field v))
           = Some (lst_num l + 1)
       \<and> map_option lst_last (a_lst (influx_field_list_append m h (Some l) field v))
           = Some (Some (length h))
       \<and> length (a_heap (influx_field_list_append m h (Some l) field v)) = Suc (length h)
       \<and> a_heap (influx_field_list_append m h (Some l) field v) ! length h
           = \<lparr>elem_f = \<lparr>f_name = field, f_value = v\<rparr>, elem_next = None\<rparr>"
proof -
  obtain m1 where f: "fstring m field = (Some field, m1)" and m1: "no_fail m1"
    using fstring_no_fail [OF assms(1)] by blast
  have a: "alloc m1 = (True, tl m1)"
    using m1 by (rule alloc_no_fail)
  show ?thesis
    using assms(2) f a
    by (auto simp: influx_field_list_append_def well_linked_def nth_append
        split: option.splits)
qed

text \<open>
  Claim C4 as stated fails: \<open>influx_field_list_compact\<close> takes the list as \<open>const\<close> and
  records nothing in it, and \<open>influx_field_list_append\<close> has no check for it. On the
  list made by \<open>influx_field_list_create\<close> and one append of \<open>a\<close>, compaction returns
  the array of that one field, and the append of \<open>b\<close> that follows returns 0 and links
  a second element.
\<close>

theorem append_after_compact_not_rejected:
  "influx_field_list_create [] = (Some \<lparr>lst_num = 0, lst_next = None, lst_last = None\<rparr>, [])
   \<and> influx_field_list_append [] []
        (Some \<lparr>lst_num = 0, lst_next = None, lst_last = None\<rparr>) ''a'' (1 :: int)
     = \<lparr>a_ret = 0, a_mem = [],
        a_heap = [\<lparr>elem_f = \<lparr>f_name = ''a'', f_value = 1\<rparr>, elem_next = None\<rparr>],
        a_lst = Some \<lparr>lst_num = 1, lst_next = Some 0, lst_last = Some 0\<rparr>\<rparr>
   \<and> influx_field_list_compact []
        [\<lparr>elem_f = \<lparr>f_name = ''a'', f_value = (1 :: int)\<rparr>, elem_next = None\<rparr>]
        (Some \<lparr>lst_num = 1, lst_next = Some 0, lst_last = Some 0\<rparr>)
     = (Some [\<lparr>f_name = ''a'', f_value = 1\<rparr>], [])
   \<and> influx_field_list_append []
        [\<lparr>elem_f = \<lparr>f_name = ''a'', f_value = (1 :: int)\<rparr>, elem_next = None\<rparr>]
        (Some \<lparr>lst_num = 1, lst_next = Some 0, lst_last = Some 0\<rparr>) ''b'' 2
     = \<lparr>a_ret = 0, a_mem = [],
        a_heap = [\<lparr>elem_f = \<lparr>f_name = ''a'', f_value = 1\<rparr>, elem_next = Some 1\<rparr>,
                  \<lparr>elem_f = \<lparr>f_name = ''b'', f_value = 2\<rparr>, elem_next = None\<rparr>],
        a_lst = Some \<lparr>lst_num = 2, lst_next = Some 0, lst_last = Some 1\<rparr>\<rparr>"
  by (simp add: influx_field_list_create_def influx_field_list_append_def
      influx_field_list_compact_def fstring_def fstringa_def fstringa_loop.simps)

text \<open>
  Claim C4, amended. For every field list built with \<open>influx_field_list_create\<close> and
  \<open>influx_field_list_append\<close>, an invocation of \<open>influx_field_list_compact\<close> does not
  close the list: when no allocation fails, the compaction returns an array and a
  subsequent \<open>influx_field_list_append\<close> is accepted, that is, it returns 0, raises the
  element count by one and stores the new field in a new last element.
\<close>

theorem append_after_compact:
  assumes "influx_field_list_create m0 = (Some l0, m0')"
      and "appends h0 l0 ops = (h, l)"
      and "no_fail m"
  shows "fst (influx_field_list_compact m h (Some l)) \<noteq> None
       \<and> a_ret (influx_field_list_append (snd (influx_field_list_compact m h (Some l)))
                 h (Some l) field v) = 0
       \<and> map_option lst_num
           (a_lst (influx_field_list_append (snd (influx_field_list_compact m h (Some l)))
                 h (Some l) field v)) = Some (lst_num l + 1)
       \<and> map_option lst_last
           (a_lst (influx_field_list_append (snd (influx_field_list_compact m h (Some l)))
                 h (Some l) field v)) = Some (Some (length h))
       \<and> a_heap (influx_field_list_append (snd (influx_field_list_compact m h (Some l)))
                 h (Some l) field v) ! length h
           = \<lparr>elem_f = \<lparr>f_name = field, f_value = v\<rparr>, elem_next = None\<rparr>"
proof -
  have "well_linked h l"
    using create_well_linked [OF assms(1)] assms(2) by (rule appends_well_linked)
  then show ?thesis
    using compact_no_fail [OF assms(3), of h l]
      append_accepted [of "snd (influx_field_list_compact m h (Some l))" h l field v]
    by simp
qed

theorem append_after_compact_witness:
  "influx_field_list_create [] = (Some \<lparr>lst_num = 0, lst_next = None, lst_last = None\<rparr>, [])
   \<and> appends [] \<lparr>lst_num = 0, lst_next = None, lst_last = None\<rparr> [([], ''a'', 1 :: int)]
       = ([\<lparr>elem_f = \<lparr>f_name = ''a'', f_value = 1\<rparr>, elem_next = None\<rparr>],
          \<lparr>lst_num = 1, lst_next = Some 0, lst_last = Some 0\<rparr>)
   \<and> no_fail []
   \<and> fst (influx_field_list_compact []
        [\<lparr>elem_f = \<lparr>f_name = ''a'', f_value = 1 :: int\<rparr>, elem_next = None\<rparr>]
        (Some \<lparr>lst_num = 1, lst_next = Some 0, lst_last = Some 0\<rparr>)) \<noteq> None
   \<and> a_ret (influx_field_list_append
        (snd (influx_field_list_compact []
           [\<lparr>elem_f = \<lparr>f_name = ''a'', f_value = 1 :: int\<rparr>, elem_next = None\<rparr>]
           (Some \<lparr>lst_num = 1, lst_next = Some 0, lst_last = Some 0\<rparr>)))
        [\<lparr>elem_f = \<lparr>f_name = ''a'', f_value = 1\<rparr>, elem_next = None\<rparr>]
        (Some \<lparr>lst_num = 1, lst_next = Some 0, lst_last = Some 0\<rparr>) ''b'' (2 :: int)) = 0"
proof -
  have c: "influx_field_list_create []
      = (Some \<lparr>lst_num = 0, lst_next = None, lst_last = None\<rparr>, [])"
    by (simp add: influx_field_list_create_def)
  have a: "appends [] \<lparr>lst_num = 0, lst_next = None, lst_last = None\<rparr> [([], ''a'', 1 :: int)]
       = ([\<lparr>elem_f = \<lparr>f_name = ''a'', f_value = 1\<rparr>, elem_next = None\<rparr>],
          \<lparr>lst_num = 1, lst_next = Some 0, lst_last = Some 0\<rparr>)"
    by (simp add: influx_field_list_append_def fstring_def fstringa_def fstringa_loop.simps)
  have n: "no_fail []"
    by (simp add: no_fail_def)
  have r: "fst (influx_field_list_compact []
        [\<lparr>elem_f = \<lparr>f_name = ''a'', f_value = 1 :: int\<rparr>, elem_next = None\<rparr>]
        (Some \<lparr>lst_num = 1, lst_next = Some 0, lst_last = Some 0\<rparr>)) \<noteq> None
   \<and> a_ret (influx_field_list_append
        (snd (influx_field_list_compact []
           [\<lparr>elem_f = \<lparr>f_name = ''a'', f_value = 1 :: int\<rparr>, elem_next = None\<rparr>]
           (Some \<lparr>lst_num = 1, lst_next = Some 0, lst_last = Some 0\<rparr>)))
        [\<lparr>elem_f = \<lparr>f_name = ''a'', f_value = 1\<rparr>, elem_next = None\<rparr>]
        (Some \<lparr>lst_num = 1, lst_next = Some 0, lst_last = Some 0\<rparr>) ''b'' (2 :: int)) = 0"
    using append_after_compact [OF c a n, of "''b''" 2] by simp
  show ?thesis
    using c a n r by blast
qed

text \<open>
  Claim C9 as stated fails on a list whose \<open>last\<close> pointer is not at the end of the
  chain: the second branch stores the result of \<open>calloc\<close> in \<open>lst->last->next\<close> before
  testing it, so a failed allocation cuts the chain behind \<open>last\<close>. Here \<open>last\<close> points
  to the first of two linked elements, the copy of the name succeeds and \<open>calloc\<close>
  fails: the call returns -1 and the first element has lost its successor.
\<close>

theorem append_failure_cuts_chain:
  "a_ret (influx_field_list_append [True, True, False]
       [\<lparr>elem_f = \<lparr>f_name = ''a'', f_value = (1 :: int)\<rparr>, elem_next = Some 1\<rparr>,
        \<lparr>elem_f = \<lparr>f_name = ''b'', f_value = 2\<rparr>, elem_next = None\<rparr>]
       (Some \<lparr>lst_num = 2, lst_next = Some 0, lst_last = Some 0\<rparr>) ''c'' 3) = - 1
   \<and> a_heap (influx_field_list_append [True, True, False]
       [\<lparr>elem_f = \<lparr>f_name = ''a'', f_value = (1 :: int)\<rparr>, elem_next = Some 1\<rparr>,
        \<lparr>elem_f = \<lparr>f_name = ''b'', f_value = 2\<rparr>, elem_next = None\<rparr>]
       (Some \<lparr>lst_num = 2, lst_next = Some 0, lst_last = Some 0\<rparr>) ''c'' 3)
     = [\<lparr>elem_f = \<lparr>f_name = ''a'', f_value = 1\<rparr>, elem_next = None\<rparr>,
        \<lparr>elem_f = \<lparr>f_name = ''b'', f_value = 2\<rparr>, elem_next = None\<rparr>]"
  by (simp add: influx_field_list_append_def fstring_def fstringa_def fstringa_loop.simps)

text \<open>
  Claim C9, amended. Whenever \<open>influx_field_list_append\<close> returns -1 on a list that is
  \<open>NULL\<close> or whose \<open>last\<close> element, if \<open>next\<close> and \<open>last\<close> are both set, is allocated
  and has no successor, the elements in the heap and the list structure (count, \<open>next\<close>
  and \<open>last\<close>) are as before the call. Every list built with
  \<open>influx_field_list_create\<close> and \<open>influx_field_list_append\<close> is such a list
  (\<open>create_well_linked\<close>, \<open>appends_well_linked\<close>, \<open>well_linked_last_is_tail\<close>).
\<close>

theorem append_failure_leaves_list:
  assumes "a_ret (influx_field_list_append m h lst field v) = - 1"
      and "case lst of None \<Rightarrow> True | Some l \<Rightarrow> last_is_tail h l"
  shows "a_heap (influx_field_list_append m h lst field v) = h
       \<and> a_lst (influx_field_list_append m h lst field v) = lst"
  using assms
  by (auto simp: influx_field_list_append_def last_is_tail_def elem_next_None_update
      lst_next_None_update split: prod.splits option.splits bool.splits)

theorem append_failure_leaves_list_witness:
  "a_ret (influx_field_list_append [True, True, False]
       [\<lparr>elem_f = \<lparr>f_name = ''a'', f_value = (1 :: int)\<rparr>, elem_next = Some 1\<rparr>,
        \<lparr>elem_f = \<lparr>f_name = ''b'', f_value = 2\<rparr>, elem_next = None\<rparr>]
       (Some \<lparr>lst_num = 2, lst_next = Some 0, lst_last = Some 1\<rparr>) ''c'' 3) = - 1
   \<and> last_is_tail
       [\<lparr>elem_f = \<lparr>f_name = ''a'', f_value = (1 :: int)\<rparr>, elem_next = Some 1\<rparr>,
        \<lparr>elem_f = \<lparr>f_name = ''b'', f_value = 2\<rparr>, elem_next = None\<rparr>]
       \<lparr>lst_num = 2, lst_next = Some 0, lst_last = Some 1\<rparr>
   \<and> a_heap (influx_field_list_append [True, True, False]
       [\<lparr>elem_f = \<lparr>f_name = ''a'', f_value = (1 :: int)\<rparr>, elem_next = Some 1\<rparr>,
        \<lparr>elem_f = \<lparr>f_name = ''b'', f_value = 2\<rparr>, elem_next = None\<rparr>]
       (Some \<lparr>lst_num = 2, lst_next = Some 0, lst_last = Some 1\<rparr>) ''c'' 3)
     = [\<lparr>elem_f = \<lparr>f_name = ''a'', f_value = 1\<rparr>, elem_next = Some 1\<rparr>,
        \<lparr>elem_f = \<lparr>f_name = ''b'', f_value = 2\<rparr>, elem_next = None\<rparr>]
   \<and> a_lst (influx_field_list_append [True, True, False]
       [\<lparr>elem_f = \<lparr>f_name = ''a'', f_value = (1 :: int)\<rparr>, elem_next = Some 1\<rparr>,
        \<lparr>elem_f = \<lparr>f_name = ''b'', f_value = 2\<rparr>, elem_next = None\<rparr>]
       (Some \<lparr>lst_num = 2, lst_next = Some 0, lst_last = Some 1\<rparr>) ''c'' 3)
     = Some \<lparr>lst_num = 2, lst_next = Some 0, lst_last = Some 1\<rparr>"
proof -
  have r: "a_ret (influx_field_list_append [True, True, False]
       [\<lparr>elem_f = \<lparr>f_name = ''a'', f_value = (1 :: int)\<rparr>, elem_next = Some 1\<rparr>,
        \<lparr>elem_f = \<lparr>f_name = ''b'', f_value = 2\<rparr>, elem_next = None\<rparr>]
       (Some \<lparr>lst_num = 2, lst_next = Some 0, lst_last = Some 1\<rparr>) ''c'' 3) = - 1"
    by (simp add: influx_field_list_append_def fstring_def fstringa_def fstringa_loop.simps)
  have t: "last_is_tail
       [\<lparr>elem_f = \<lparr>f_name = ''a'', f_value = (1 :: int)\<rparr>, elem_next = Some 1\<rparr>,
        \<lparr>elem_f = \<lparr>f_name = ''b'', f_value = 2\<rparr>, elem_next = None\<rparr>]
       \<lparr>lst_num = 2, lst_next = Some 0, lst_last = Some 1\<rparr>"
    by (simp add: last_is_tail_def)
  show ?thesis
    using r t append_failure_leaves_list [OF r] by simp
qed








section \<open>Properties of the line encoder\<close>

lemma join_commas_Cons: "join_commas (p # ps) = p @ concat (map (\<lambda>q. '','' @ q) ps)"
  by (induction ps arbitrary: p) simp_all

lemma sep_append_nonempty:
  "acc \<noteq> [] \<Longrightarrow> sep_append acc ps = acc @ concat (map (\<lambda>q. '','' @ q) ps)"
  by (induction ps arbitrary: acc) simp_all

lemma sep_append_join:
  assumes "\<forall>p \<in> set ps. p \<noteq> []"
  shows "sep_append [] ps = join_commas ps"
proof (cases ps)
  case Nil
  then show ?thesis by simp
next
  case (Cons p qs)
  with assms have "p \<noteq> []" by simp
  then show ?thesis
    using Cons by (simp add: sep_append_nonempty join_commas_Cons)
qed

lemma tags_loop_no_fail:
  "no_fail m \<Longrightarrow>
     \<exists>m'. tags_loop m ts acc = (Some (sep_append acc (tag_pieces ts)), m') \<and> no_fail m'"
proof (induction ts arbitrary: m acc)
  case Nil
  then show ?case by (simp add: tag_pieces_def)
next
  case (Cons t ts)
  show ?case
  proof (cases "t_name t = [] \<or> t_value t = []")
    case True
    with Cons.IH [OF Cons.prems, of acc] show ?thesis
      by (auto simp: tag_pieces_def)
  next
    case False
    let ?piece = "(if acc = [] then [] else '','') @ t_name t @ ''='' @ t_value t"
    obtain m1 where f: "fstringa m (Some acc) ?piece = (Some (acc @ ?piece), m1)"
      and m1: "no_fail m1"
      using fstringa_no_fail [OF Cons.prems, of "Some acc" ?piece] by auto
    from Cons.IH [OF m1, of "acc @ ?piece"] False f show ?thesis
      by (simp add: Let_def tag_pieces_def)
  qed
qed

lemma fields_loop_no_fail:
  "no_fail m \<Longrightarrow>
     \<exists>m'. fields_loop libc m fs acc = (Some (sep_append acc (field_pieces libc fs)), m')
         \<and> no_fail m'"
proof (induction fs arbitrary: m acc)
  case Nil
  then show ?case by (simp add: field_pieces_def)
next
  case (Cons f fs)
  show ?case
  proof (cases "f_name f = []")
    case True
    with Cons.IH [OF Cons.prems, of acc] show ?thesis
      by (auto simp: field_pieces_def)
  next
    case False
    let ?piece = "(if acc = [] then [] else '','') @ f_name f @ ''='' @ fmt_f libc (f_value f)"
    obtain m1 where f: "fstringa m (Some acc) ?piece = (Some (acc @ ?piece), m1)"
      and m1: "no_fail m1"
      using fstringa_no_fail [OF Cons.prems, of "Some acc" ?piece] by auto
    from Cons.IH [OF m1, of "acc @ ?piece"] False f show ?thesis
      by (simp add: Let_def field_pieces_def)
  qed
qed

lemma tags_loop_spec:
  assumes "no_fail m"
  shows "\<exists>m'. tags_loop m ts [] = (Some (spec_tags ts), m') \<and> no_fail m'"
proof -
  have "sep_append [] (tag_pieces ts) = join_commas (tag_pieces ts)"
    by (rule sep_append_join) (auto simp: tag_pieces_def)
  then show ?thesis
    using tags_loop_no_fail [OF assms, of ts "[]"] by (simp add: spec_tags_def tag_pieces_def)
qed

lemma fields_loop_spec:
  assumes "no_fail m"
  shows "\<exists>m'. fields_loop libc m fs [] = (Some (spec_fields libc fs), m') \<and> no_fail m'"
proof -
  have "sep_append [] (field_pieces libc fs) = join_commas (field_pieces libc fs)"
    by (rule sep_append_join) (auto simp: field_pieces_def)
  then show ?thesis
    using fields_loop_no_fail [OF assms, of libc fs "[]"]
    by (simp add: spec_fields_def field_pieces_def)
qed

lemma timestamp_no_fail:
  assumes "no_fail m" and "realtime libc = Some ts"
  shows "\<exists>m'. influx_timestamp_precision libc m prec = (Some (spec_timestamp libc ts prec), m')
           \<and> no_fail m'"
  using assms fstring_no_fail [OF assms(1)]
  by (simp add: influx_timestamp_precision_def spec_timestamp_def)

lemma writer_line_no_fail:
  assumes "no_fail m" and "realtime libc = Some now"
  shows "\<exists>m'. influx_writer_line libc m (Some ms) (Some ts) (Some fs) prec
           = (Some (ms @ '','' @ spec_tags ts @ '' '' @ spec_fields libc fs @ '' ''
                    @ spec_timestamp libc now prec), m')
         \<and> no_fail m'"
proof -
  obtain m1 where 1: "influx_timestamp_precision libc m prec
      = (Some (spec_timestamp libc now prec), m1)" and m1: "no_fail m1"
    using timestamp_no_fail [OF assms] by blast
  obtain m2 where 2: "fstring m1 [] = (Some [], m2)" and m2: "no_fail m2"
    using fstring_no_fail [OF m1] by blast
  obtain m3 where 3: "fstring m2 [] = (Some [], m3)" and m3: "no_fail m3"
    using fstring_no_fail [OF m2] by blast
  obtain m4 where 4: "tags_loop m3 ts [] = (Some (spec_tags ts), m4)" and m4: "no_fail m4"
    using tags_loop_spec [OF m3] by blast
  obtain m5 where 5: "fields_loop libc m4 fs [] = (Some (spec_fields libc fs), m5)"
    and m5: "no_fail m5"
    using fields_loop_spec [OF m4] by blast
  show ?thesis
    using 1 2 3 4 5 fstring_no_fail [OF m5]
    by (simp add: influx_writer_line_def)
qed

lemma writer_line_null:
  assumes "measurement = None \<or> tags = None \<or> fieldv = None"
  shows "influx_writer_line libc m measurement tags fieldv prec = (None, m)"
  using assms by (auto simp: influx_writer_line_def split: option.splits)

lemma spec_tags_all_skipped:
  "\<forall>t \<in> set ts. t_name t = [] \<or> t_value t = [] \<Longrightarrow> spec_tags ts = []"
  by (induction ts) (auto simp: spec_tags_def)

lemma spec_fields_all_skipped:
  "\<forall>f \<in> set fs. f_name f = [] \<Longrightarrow> spec_fields libc fs = []"
  by (induction fs) (auto simp: spec_fields_def)

text \<open>
  \<open>%f\<close> prints a finite double in fixed notation with six decimals, and what it prints
  is the nearest number of millionths: it is at most half a millionth away from the
  magnitude of the double (and equal to it when the exponent is not negative).
\<close>

lemma digit_is_digit: "n < 10 \<Longrightarrow> is_digit (''0123456789'' ! n)"
proof -
  assume "n < 10"
  then have "n \<in> {0, 1, 2, 3, 4, 5, 6, 7, 8, 9}"
    by auto
  then show ?thesis
    by (auto simp: is_digit_def)
qed

lemma dec_nat_digits: "dec_nat n \<noteq> [] \<and> list_all is_digit (dec_nat n)"
proof (induction n rule: dec_nat.induct)
  case (1 n)
  show ?case
  proof (cases "n < 10")
    case True
    then show ?thesis
      by (subst (1 2) dec_nat.simps) (simp add: digit_is_digit)
  next
    case False
    with 1 show ?thesis
      by (subst (1 2) dec_nat.simps) (simp add: digit_is_digit)
  qed
qed

lemma six_digits_digits: "length (six_digits n) = 6 \<and> list_all is_digit (six_digits n)"
  by (simp add: six_digits_def digit_is_digit)

lemma not_digit: "\<not> is_digit CHR ''.''" "\<not> is_digit CHR ''-''"
  by (simp_all add: is_digit_def)

lemma fixed_notation_parts:
  assumes "whole \<noteq> []" and "list_all is_digit whole" and "length frac = 6"
      and "list_all is_digit frac"
  shows "fixed_notation ((if s then ''-'' else []) @ whole @ ''.'' @ frac)"
proof -
  have w: "takeWhile is_digit (whole @ CHR ''.'' # frac) = whole"
       "dropWhile is_digit (whole @ CHR ''.'' # frac) = CHR ''.'' # frac"
    using assms(2) by (simp_all add: takeWhile_append2 dropWhile_append2 list_all_iff not_digit)
  have h: "hd (whole @ CHR ''.'' # frac) \<noteq> CHR ''-''"
    using assms(1,2) not_digit(2) by (cases whole) auto
  show ?thesis
    using assms w h by (cases s) (simp_all add: fixed_notation_def)
qed

lemma printf_f_fixed: "fixed_notation (printf_f (Finite s mant e))"
  using fixed_notation_parts [OF dec_nat_digits [THEN conjunct1] dec_nat_digits [THEN conjunct2]
      six_digits_digits [THEN conjunct1] six_digits_digits [THEN conjunct2]]
  by simp

lemma round6_near:
  "e < 0 \<Longrightarrow> 2 * \<bar>int (round6 mant e) * 2 ^ nat (- e) - int mant * 1000000\<bar> \<le> 2 ^ nat (- e)"
proof -
  assume "e < 0"
  define den :: nat where "den = 2 ^ nat (- e)"
  define num where "num = mant * 1000000"
  define q where "q = num div den"
  define r where "r = num mod den"
  have d: "0 < den" by (simp add: den_def)
  have n: "num = q * den + r" by (simp add: q_def r_def)
  have r: "r < den" using d by (simp add: r_def)
  have "round6 mant e = (if den < 2 * r \<or> (2 * r = den \<and> odd q) then q + 1 else q)"
    using \<open>e < 0\<close> by (simp add: round6_def Let_def den_def num_def q_def r_def)
  moreover have "2 * \<bar>int (q + 1) * int den - int num\<bar> \<le> int den" if "den \<le> 2 * r"
    using that n r by (simp add: algebra_simps)
  moreover have "2 * \<bar>int q * int den - int num\<bar> \<le> int den" if "2 * r \<le> den"
    using that n r by (simp add: algebra_simps)
  ultimately have "2 * \<bar>int (round6 mant e) * int den - int num\<bar> \<le> int den"
    by (auto split: if_splits)
  then show ?thesis
    by (simp add: den_def num_def)
qed

lemma round6_exact: "0 \<le> e \<Longrightarrow> round6 mant e = mant * 2 ^ nat e * 1000000"
  by (simp add: round6_def)

text \<open>
  Claim C5 as stated fails for the empty measurement name: the guard of
  \<open>influx_writer_line\<close> tests the pointer \<open>measurement\<close> against \<open>NULL\<close>, never its first
  character. With the name \<open>""\<close>, both lists present and empty, and the clock at
  1700000000 s, the call returns the line \<open>",  1700000000"\<close>.
\<close>

theorem empty_measurement_not_rejected:
  "influx_writer_line example_libc [] (Some []) (Some []) (Some []) INFLUX_PRECISION_S
     = (Some '',  1700000000'', [])"
  by (simp add: influx_writer_line_def influx_timestamp_precision_def example_libc_def
      fstring_def fstringa_def fstringa_loop.simps fmt_ld_def dec_nat.simps)

text \<open>
  Claim C5, amended. \<open>influx_writer_line\<close> returns \<open>NULL\<close> whenever the measurement
  pointer, the tags pointer or the fields pointer is \<open>NULL\<close>. When the three are present,
  the clock can be read and no allocation fails, a measurement name, empty or not, with
  lists that are empty, or empty after the tags and fields with empty names or values are
  skipped, is not rejected: the line is the name, a comma, two spaces (an empty tag and an
  empty field segment) and the timestamp.
\<close>

theorem influx_writer_line_null_or_empty:
  "(measurement = None \<or> tags = None \<or> fieldv = None \<longrightarrow>
      fst (influx_writer_line libc m measurement tags fieldv prec) = None)
   \<and> (no_fail m \<and> realtime libc = Some now
        \<and> (\<forall>t \<in> set ts. t_name t = [] \<or> t_value t = []) \<and> (\<forall>f \<in> set fs. f_name f = []) \<longrightarrow>
      fst (influx_writer_line libc m (Some ms) (Some ts) (Some fs) prec)
        = Some (ms @ '',  '' @ spec_timestamp libc now prec))"
proof (intro conjI impI)
  assume "measurement = None \<or> tags = None \<or> fieldv = None"
  then show "fst (influx_writer_line libc m measurement tags fieldv prec) = None"
    by (simp add: writer_line_null)
next
  assume a: "no_fail m \<and> realtime libc = Some now
        \<and> (\<forall>t \<in> set ts. t_name t = [] \<or> t_value t = []) \<and> (\<forall>f \<in> set fs. f_name f = [])"
  then have "spec_tags ts = []" and "spec_fields libc fs = []"
    by (simp_all add: spec_tags_all_skipped spec_fields_all_skipped)
  then show "fst (influx_writer_line libc m (Some ms) (Some ts) (Some fs) prec)
        = Some (ms @ '',  '' @ spec_timestamp libc now prec)"
    using writer_line_no_fail [of m libc now ms ts fs prec] a by auto
qed

theorem influx_writer_line_null_or_empty_witness:
  "fst (influx_writer_line example_libc [] None (Some []) (Some []) INFLUX_PRECISION_S) = None
   \<and> no_fail [] \<and> realtime example_libc = Some \<lparr>tv_sec = 1700000000, tv_nsec = 0\<rparr>
   \<and> fst (influx_writer_line example_libc [] (Some ''instant'')
            (Some [\<lparr>t_name = ''meter'', t_value = []\<rparr>]) (Some [\<lparr>f_name = [], f_value = 1\<rparr>])
            INFLUX_PRECISION_S)
       = Some ''instant,  1700000000''"
  using influx_writer_line_null_or_empty [of None "Some []" "Some []" example_libc "[]"
      INFLUX_PRECISION_S "\<lparr>tv_sec = 1700000000, tv_nsec = 0\<rparr>"
      "[\<lparr>t_name = ''meter'', t_value = []\<rparr>]" "[\<lparr>f_name = [], f_value = 1\<rparr>]" "''instant''"]
  by (simp add: no_fail_def example_libc_def spec_timestamp_def fmt_ld_def dec_nat.simps)

text \<open>
  Claim C6 as stated fails where it says that a field value is formatted at full
  precision: the conversion is \<open>%f\<close>, which keeps six digits after the point. The
  double 0.0009765625 (2 to the power -10) is rendered as \<open>0.000977\<close>, and the double
  2 to the power -24, which is not zero, is rendered as \<open>0.000000\<close>, like zero itself.
\<close>

theorem field_value_loses_precision:
  "fst (influx_writer_line printf_libc [] (Some ''instant'') (Some [])
         (Some [\<lparr>f_name = ''power'', f_value = Finite False 1 (- 10)\<rparr>]) INFLUX_PRECISION_S)
     = Some ''instant, power=0.000977 1700000000''
   \<and> fst (influx_writer_line printf_libc [] (Some ''instant'') (Some [])
         (Some [\<lparr>f_name = ''power'', f_value = Finite False 1 (- 24)\<rparr>]) INFLUX_PRECISION_S)
     = Some ''instant, power=0.000000 1700000000''
   \<and> fst (influx_writer_line printf_libc [] (Some ''instant'') (Some [])
         (Some [\<lparr>f_name = ''power'', f_value = Finite False 0 0\<rparr>]) INFLUX_PRECISION_S)
     = Some ''instant, power=0.000000 1700000000''"
proof -
  have n: "no_fail []"
    by (simp add: no_fail_def)
  have c: "realtime printf_libc = Some \<lparr>tv_sec = 1700000000, tv_nsec = 0\<rparr>"
    by (simp add: printf_libc_def)
  have t: "spec_timestamp printf_libc \<lparr>tv_sec = 1700000000, tv_nsec = 0\<rparr> INFLUX_PRECISION_S
             = ''1700000000''"
    by (simp add: spec_timestamp_def fmt_ld_def dec_nat.simps)
  have f: "fmt_f printf_libc = printf_f"
    by (simp add: printf_libc_def)
  show ?thesis
    using writer_line_no_fail [OF n c, of "''instant''" "[]"
        "[\<lparr>f_name = ''power'', f_value = Finite False 1 (- 10)\<rparr>]" INFLUX_PRECISION_S]
      writer_line_no_fail [OF n c, of "''instant''" "[]"
        "[\<lparr>f_name = ''power'', f_value = Finite False 1 (- 24)\<rparr>]" INFLUX_PRECISION_S]
      writer_line_no_fail [OF n c, of "''instant''" "[]"
        "[\<lparr>f_name = ''power'', f_value = Finite False 0 0\<rparr>]" INFLUX_PRECISION_S]
    by (auto simp: spec_tags_def spec_fields_def t f round6_def six_digits_def dec_nat.simps)
qed

text \<open>
  Claim C6, amended. For a valid input (the three pointers present, the clock readable,
  no allocation failing) the line is \<open>measurement,<tags> <fields> <timestamp>\<close>, where the
  tags are rendered in input order as \<open>name=value\<close> joined by commas, a tag with an empty
  name or an empty value being skipped, and the fields in input order as \<open>name=value\<close>
  joined by commas, a field with an empty name being skipped. The value of a field is
  printed with \<open>%f\<close>: for a finite double that is fixed notation, never with an exponent,
  with exactly six digits after the point, the value being rounded to them (so not at
  full precision); an infinity or a NaN is printed as \<open>inf\<close> or \<open>nan\<close>, with a minus
  sign when the sign bit is set.
\<close>

theorem influx_writer_line_format:
  assumes "no_fail m" and "realtime libc = Some now" and "fmt_f libc = printf_f"
  shows "fst (influx_writer_line libc m (Some ms) (Some ts) (Some fs) prec)
           = Some (ms @ '','' @ spec_tags ts @ '' ''
                   @ join_commas (map (\<lambda>f. f_name f @ ''='' @ printf_f (f_value f))
                                      (filter (\<lambda>f. f_name f \<noteq> []) fs))
                   @ '' '' @ spec_timestamp libc now prec)
       \<and> (\<forall>s mant e. fixed_notation (printf_f (Finite s mant e))
             \<and> (0 \<le> e \<longrightarrow> int (round6 mant e) = int mant * 2 ^ nat e * 1000000)
             \<and> (e < 0 \<longrightarrow> 2 * \<bar>int (round6 mant e) * 2 ^ nat (- e) - int mant * 1000000\<bar>
                              \<le> 2 ^ nat (- e)))
       \<and> (\<forall>s. printf_f (Infinite s) = (if s then ''-inf'' else ''inf'')
             \<and> printf_f (NaN s) = (if s then ''-nan'' else ''nan''))"
proof (intro conjI allI impI)
  show "fst (influx_writer_line libc m (Some ms) (Some ts) (Some fs) prec)
           = Some (ms @ '','' @ spec_tags ts @ '' ''
                   @ join_commas (map (\<lambda>f. f_name f @ ''='' @ printf_f (f_value f))
                                      (filter (\<lambda>f. f_name f \<noteq> []) fs))
                   @ '' '' @ spec_timestamp libc now prec)"
    using writer_line_no_fail [OF assms(1,2), of ms ts fs prec] assms(3)
    by (auto simp: spec_fields_def)
next
  fix s mant e
  show "fixed_notation (printf_f (Finite s mant e))"
    by (rule printf_f_fixed)
next
  fix mant e
  assume "0 \<le> (e :: int)"
  then show "int (round6 mant e) = int mant * 2 ^ nat e * 1000000"
    by (simp add: round6_exact)
next
  fix mant e
  assume "(e :: int) < 0"
  then show "2 * \<bar>int (round6 mant e) * 2 ^ nat (- e) - int mant * 1000000\<bar> \<le> 2 ^ nat (- e)"
    by (rule round6_near)
next
  fix s
  show "printf_f (Infinite s) = (if s then ''-inf'' else ''inf'')"
    by simp
  show "printf_f (NaN s) = (if s then ''-nan'' else ''nan'')"
    by simp
qed

theorem influx_writer_line_format_witness:
  "no_fail [] \<and> realtime printf_libc = Some \<lparr>tv_sec = 1700000000, tv_nsec = 0\<rparr>
   \<and> fmt_f printf_libc = printf_f
   \<and> fst (influx_writer_line printf_libc [] (Some ''instant'')
        (Some [\<lparr>t_name = ''meter'', t_value = ''2''\<rparr>, \<lparr>t_name = ''room'', t_value = []\<rparr>,
               \<lparr>t_name = ''site'', t_value = ''lab''\<rparr>])
        (Some [\<lparr>f_name = ''voltage_l1_n'', f_value = Finite False 461 (- 1)\<rparr>,
               \<lparr>f_name = [], f_value = Finite False 1 0\<rparr>,
               \<lparr>f_name = ''power_l1'', f_value = Finite True 5 0\<rparr>]) INFLUX_PRECISION_S)
     = Some ''instant,meter=2,site=lab voltage_l1_n=230.500000,power_l1=-5.000000 1700000000''
   \<and> fixed_notation ''230.500000'' \<and> fixed_notation ''-5.000000''
   \<and> (0 :: int) \<le> 0 \<and> int (round6 5 0) = 5000000
   \<and> (- 1 :: int) < 0 \<and> int (round6 461 (- 1)) = 230500000"
proof -
  have n: "no_fail []"
    by (simp add: no_fail_def)
  have c: "realtime printf_libc = Some \<lparr>tv_sec = 1700000000, tv_nsec = 0\<rparr>"
    by (simp add: printf_libc_def)
  have p: "fmt_f printf_libc = printf_f"
    by (simp add: printf_libc_def)
  have t: "spec_timestamp printf_libc \<lparr>tv_sec = 1700000000, tv_nsec = 0\<rparr> INFLUX_PRECISION_S
             = ''1700000000''"
    by (simp add: spec_timestamp_def fmt_ld_def dec_nat.simps)
  note k = influx_writer_line_format [OF n c p, of "''instant''"
        "[\<lparr>t_name = ''meter'', t_value = ''2''\<rparr>, \<lparr>t_name = ''room'', t_value = []\<rparr>,
          \<lparr>t_name = ''site'', t_value = ''lab''\<rparr>]"
        "[\<lparr>f_name = ''voltage_l1_n'', f_value = Finite False 461 (- 1)\<rparr>,
          \<lparr>f_name = [], f_value = Finite False 1 0\<rparr>,
          \<lparr>f_name = ''power_l1'', f_value = Finite True 5 0\<rparr>]" INFLUX_PRECISION_S]
  have 1: "fixed_notation ''230.500000''"
    using k [THEN conjunct2, THEN conjunct1, rule_format, THEN conjunct1, of False 461 "- 1"]
    by (simp add: round6_def six_digits_def dec_nat.simps)
  have 2: "fixed_notation ''-5.000000''"
    using k [THEN conjunct2, THEN conjunct1, rule_format, THEN conjunct1, of True 5 0]
    by (simp add: round6_def six_digits_def dec_nat.simps)
  show ?thesis
    using n c p 1 2 k [THEN conjunct1]
    by (simp add: spec_tags_def t round6_def six_digits_def dec_nat.simps)
qed

section \<open>Properties of the delivery\<close>

lemma slist_append_no_fail:
  "no_fail m \<Longrightarrow> slist_append m s h
     = (Some ((case s of None \<Rightarrow> [] | Some hs \<Rightarrow> hs) @ [h]), tl m)"
  by (simp add: slist_append_def alloc_no_fail)

lemma lines_loop_no_fail:
  "no_fail m \<Longrightarrow>
     \<exists>m'. lines_loop m ls data
            = (True, if ls = [] then data
                     else Some ((case data of None \<Rightarrow> [] | Some d \<Rightarrow> d) @ spec_body ls), m')
         \<and> no_fail m'"
proof (induction ls arbitrary: m data)
  case Nil
  then show ?case by simp
next
  case (Cons l ls)
  let ?d = "(case data of None \<Rightarrow> [] | Some d \<Rightarrow> d) @ l @ [CHR 0x0A]"
  obtain m1 where f: "fstringa m data (l @ [CHR 0x0A]) = (Some ?d, m1)" and m1: "no_fail m1"
    using fstringa_no_fail [OF Cons.prems, of data "l @ [CHR 0x0A]"] by auto
  from Cons.IH [OF m1, of "Some ?d"] f show ?case
    by (auto simp: spec_body_def)
qed


lemma lines_post_no_fail:
  assumes "no_fail m"
  shows "\<exists>m'. influx_lines_post w m ctx lines want
           = (map_option
                (\<lambda>r. r\<lparr>p_ctx := curl_slist_free_all (Some (spec_headers (token w))) (p_ctx r)\<rparr>)
                (influx_http_post w ctx lines (Some (spec_headers (token w))) want), m')
         \<and> no_fail m'"
proof (cases "token w")
  case None
  then show ?thesis
    using assms
    by (simp add: influx_lines_post_def slist_append_no_fail no_fail_tl spec_headers_def)
next
  case (Some tok)
  obtain m3 where f: "fstring (tl (tl m)) (''Authorization: Token '' @ tok)
       = (Some (''Authorization: Token '' @ tok), m3)" and m3: "no_fail m3"
    using fstring_no_fail [OF no_fail_tl [OF no_fail_tl [OF assms]]] by blast
  show ?thesis
    using assms Some f m3
    by (simp add: influx_lines_post_def slist_append_no_fail no_fail_tl spec_headers_def)
qed

lemma writer_write_no_fail:
  assumes "no_fail m" and "lines \<noteq> []"
  shows "fst (influx_writer_write w m ctx lines want)
           = map_option
               (\<lambda>r. r\<lparr>p_ctx := curl_slist_free_all (Some (spec_headers (token w))) (p_ctx r)\<rparr>)
               (influx_http_post w ctx (Some (spec_body lines))
                  (Some (spec_headers (token w))) want)"
proof -
  obtain m1 where l: "lines_loop m lines None = (True, Some (spec_body lines), m1)"
    and m1: "no_fail m1"
    using lines_loop_no_fail [OF assms(1), of lines None] assms(2) by auto
  show ?thesis
    using l lines_post_no_fail [OF m1, of w ctx "Some (spec_body lines)" want]
    by (auto simp: influx_writer_write_def)
qed



lemma http_post_sent:
  assumes "curl wr = Some c" and "setopt_ok w"
  shows "\<exists>r. influx_http_post w (Some wr) (Some body) (Some hs) want = Some r
           \<and> p_sent r = Some \<lparr>req_headers = Some hs, req_body = body\<rparr>
           \<and> p_ret r = (case perform w \<lparr>req_headers = Some hs, req_body = body\<rparr> of
                          CURLE_OK resp \<Rightarrow> 0
                        | CURLE_HTTP_RETURNED_ERROR st \<Rightarrow> sint (word_of_int st :: 32 word)
                        | CURLE_other \<Rightarrow> - 1)"
  using assms
  by (auto simp: influx_http_post_def Let_def split: transfer.splits)









text \<open>
  The one call without a defined outcome: on a writer that has been used, a write in
  which the header list ends up \<open>NULL\<close> (here the second \<open>curl_slist_append\<close> fails
  and no secret is set) leaves the handle with the pointer to the list that the
  previous write has freed, and the transfer reads it. On a fresh writer the same write
  is performed, without custom headers.
\<close>

lemma stale_header_list_is_read:
  "fst (influx_writer_write world_401 [True, True, True, False] (Some used_writer)
         [''instant,meter=1 v=1 17''] True) = None
   \<and> fst (influx_writer_write world_401 [True, True, True, False] (Some fresh_writer)
         [''instant,meter=1 v=1 17''] True)
     = Some \<lparr>p_ret = 401, p_response = None, p_ctx = Some fresh_writer,
             p_sent = Some \<lparr>req_headers = None,
                             req_body = ''instant,meter=1 v=1 17'' @ [CHR 0x0A]\<rparr>\<rparr>"
  by (simp add: influx_writer_write_def influx_lines_post_def influx_http_post_def
      slist_append_def fstring_def fstringa_eq curl_slist_free_all_def
      world_401_def fresh_writer_def used_writer_def)


text \<open>
  Claim C8 as stated fails for a write in which an allocation fails: \<open>slist_append\<close>
  frees the list and returns \<open>NULL\<close> when \<open>curl_slist_append\<close> fails, and the next
  call starts a new list (the comment in \<open>slist_append\<close> says so). With
  \<open>INFLUXDB_TOKEN\<close> set and the third \<open>curl_slist_append\<close> failing, the request is
  performed with no custom header at all, so without the authorization header, and the
  write returns 0. With the variable unset and the first \<open>curl_slist_append\<close> failing,
  the request is performed with \<open>Content-Type\<close> alone, without \<open>Accept\<close>.
\<close>

theorem failed_append_drops_headers:
  "token world_201 = Some ''secret''
   \<and> fst (influx_writer_write world_201 [True, True, True, True, True, True, False]
            (Some fresh_writer) [''instant,meter=1 v=1 17''] False)
     = Some \<lparr>p_ret = 0, p_response = None, p_ctx = Some fresh_writer,
             p_sent = Some \<lparr>req_headers = None,
                             req_body = ''instant,meter=1 v=1 17'' @ [CHR 0x0A]\<rparr>\<rparr>
   \<and> token world_401 = None
   \<and> fst (influx_writer_write world_401 [True, True, False]
            (Some fresh_writer) [''instant,meter=1 v=1 17''] False)
     = Some \<lparr>p_ret = 401, p_response = None, p_ctx = Some used_writer,
             p_sent = Some \<lparr>req_headers = Some [''Content-Type: text/plain; charset=utf-8''],
                             req_body = ''instant,meter=1 v=1 17'' @ [CHR 0x0A]\<rparr>\<rparr>"
  by (simp add: influx_writer_write_def influx_lines_post_def influx_http_post_def
      slist_append_def fstring_def fstringa_eq curl_slist_free_all_def
      world_201_def world_401_def fresh_writer_def used_writer_def)

text \<open>
  Claim C8, amended. When no allocation fails, a write of at least one line through a
  writer with a libcurl handle on which the options can be set performs a request whose
  header list is the two fixed headers \<open>Accept\<close> and \<open>Content-Type\<close>, followed by
  \<open>Authorization: Token <secret>\<close> exactly when \<open>INFLUXDB_TOKEN\<close> is set: the list
  holds an authorization header if and only if the variable is set, and with the variable
  unset the request is performed all the same, with the two fixed headers only. No error
  is raised for a missing secret: set or not, the value returned is the one that the
  transfer gives (0 for \<open>CURLE_OK\<close>, the status for \<open>CURLE_HTTP_RETURNED_ERROR\<close>, -1
  for any other code of libcurl).
\<close>

theorem authorization_header_iff_token:
  assumes "no_fail m" and "lines \<noteq> []" and "curl wr = Some c" and "setopt_ok w"
  shows "\<exists>r hs. fst (influx_writer_write w m (Some wr) lines want_response) = Some r
           \<and> p_sent r = Some \<lparr>req_headers = Some hs, req_body = spec_body lines\<rparr>
           \<and> hs = spec_headers (token w)
           \<and> ((\<exists>secret. ''Authorization: Token '' @ secret \<in> set hs) \<longleftrightarrow> token w \<noteq> None)
           \<and> (\<forall>secret. token w = Some secret \<longrightarrow> ''Authorization: Token '' @ secret \<in> set hs)
           \<and> (token w = None \<longrightarrow>
                 hs = [''Accept: application/json'', ''Content-Type: text/plain; charset=utf-8''])
           \<and> p_ret r = (case perform w \<lparr>req_headers = Some hs, req_body = spec_body lines\<rparr> of
                          CURLE_OK resp \<Rightarrow> 0
                        | CURLE_HTTP_RETURNED_ERROR st \<Rightarrow> sint (word_of_int st :: 32 word)
                        | CURLE_other \<Rightarrow> - 1)"
proof -
  let ?hs = "spec_headers (token w)"
  let ?ret = "case perform w \<lparr>req_headers = Some ?hs, req_body = spec_body lines\<rparr> of
                CURLE_OK resp \<Rightarrow> 0
              | CURLE_HTTP_RETURNED_ERROR st \<Rightarrow> sint (word_of_int st :: 32 word)
              | CURLE_other \<Rightarrow> - 1"
  have "fst (influx_writer_write w m (Some wr) lines want_response)
      = map_option (\<lambda>r. r\<lparr>p_ctx := curl_slist_free_all (Some ?hs) (p_ctx r)\<rparr>)
          (influx_http_post w (Some wr) (Some (spec_body lines)) (Some ?hs) want_response)"
    using assms(1,2) by (rule writer_write_no_fail)
  moreover obtain r0 where
    "influx_http_post w (Some wr) (Some (spec_body lines)) (Some ?hs) want_response = Some r0"
    "p_sent r0 = Some \<lparr>req_headers = Some ?hs, req_body = spec_body lines\<rparr>"
    "p_ret r0 = ?ret"
    using http_post_sent [OF assms(3,4), of "spec_body lines" ?hs want_response] by blast
  ultimately obtain r where
    r: "fst (influx_writer_write w m (Some wr) lines want_response) = Some r"
       "p_sent r = Some \<lparr>req_headers = Some ?hs, req_body = spec_body lines\<rparr>"
    and ret: "p_ret r = ?ret"
    by auto
  have 1: "(\<exists>secret. ''Authorization: Token '' @ secret \<in> set ?hs) \<longleftrightarrow> token w \<noteq> None"
    by (cases "token w") (auto simp: spec_headers_def)
  have 2: "\<forall>secret. token w = Some secret \<longrightarrow> ''Authorization: Token '' @ secret \<in> set ?hs"
    by (simp add: spec_headers_def)
  have 3: "token w = None \<longrightarrow>
             ?hs = [''Accept: application/json'', ''Content-Type: text/plain; charset=utf-8'']"
    by (simp add: spec_headers_def)
  show ?thesis
    by (intro exI [of _ r] exI [of _ ?hs] conjI r refl 1 2 3 ret)
qed

theorem authorization_header_iff_token_witness:
  "no_fail [] \<and> [''instant,meter=1 v=1 17''] \<noteq> []
   \<and> curl used_writer = Some \<lparr>httpheader = Dangling\<rparr> \<and> setopt_ok world_201
   \<and> token world_201 = Some ''secret''
   \<and> (\<exists>r hs. fst (influx_writer_write world_201 [] (Some used_writer)
                     [''instant,meter=1 v=1 17''] False) = Some r
         \<and> p_sent r = Some \<lparr>req_headers = Some hs,
                               req_body = spec_body [''instant,meter=1 v=1 17'']\<rparr>
         \<and> hs = [''Accept: application/json'', ''Content-Type: text/plain; charset=utf-8'',
                 ''Authorization: Token secret'']
         \<and> p_ret r = 0)"
proof -
  have n: "no_fail []"
    by (simp add: no_fail_def)
  have l: "[''instant,meter=1 v=1 17''] \<noteq> []"
    by simp
  have c: "curl used_writer = Some \<lparr>httpheader = Dangling\<rparr>"
    by (simp add: used_writer_def)
  have s: "setopt_ok world_201" "token world_201 = Some ''secret''"
    "\<And>req. perform world_201 req = CURLE_OK (Some ''{}'')"
    by (simp_all add: world_201_def)
  have t: "spec_headers (token world_201)
      = [''Accept: application/json'', ''Content-Type: text/plain; charset=utf-8'',
         ''Authorization: Token secret'']"
    by (simp add: spec_headers_def world_201_def)
  show ?thesis
    using n c s t authorization_header_iff_token [OF n l c s(1), of False]
    by auto
qed

section \<open>Properties of the acquisition cycle\<close>























end
